theory Spec2Isabelle
  imports Complex_Main "HOL-Library.Sublist"
begin


section \<open>Words and their formal inverses (check\_proof.py)\<close>


definition swapcase_char :: "char \<Rightarrow> char" where
  "swapcase_char c =
     (let n = (of_char c :: nat) in
      if 97 \<le> n \<and> n \<le> 122 then char_of (n - 32)
      else if 65 \<le> n \<and> n \<le> 90 then char_of (n + 32)
      else c)"

definition swapcase :: "string \<Rightarrow> string" where
  "swapcase w = map swapcase_char w"

text \<open>\<^verbatim>\<open>def invert_word(word): return word.swapcase()[::-1]\<close>\<close>

definition invert_word :: "string \<Rightarrow> string" where
  "invert_word word = rev (swapcase word)"

section \<open>Exceptions\<close>

text \<open>
  The Python code raises \<open>ValueError\<close> with four different messages, fails assertions, and
  can fail a two-element tuple unpacking. Each is a constructor:
  \<^item> \<open>UnsupportedTopology\<close>: \<open>ValueError('Sorry, we do not support orbifold singularities')\<close>;
  \<^item> \<open>HolonomyUnverified\<close>: \<open>ValueError("Could not verify the holonomy representation.")\<close>;
  \<^item> \<open>NoNoncommutingGens\<close>: \<open>ValueError("Could not verify a pair of noncommuting gens.")\<close>;
  \<^item> \<open>PrecisionInsufficient\<close>: \<open>ValueError('Failed to solve the word problem at this precision.')\<close>;
  \<^item> \<open>AssertionError\<close>: a failed \<open>assert\<close>;
  \<^item> \<open>UnpackError\<close>: the \<open>ValueError\<close> of \<open>w0, w1 = [...]\<close> on a list that has not two elements.
\<close>

datatype error =
    UnsupportedTopology
  | HolonomyUnverified
  | NoNoncommutingGens
  | PrecisionInsufficient
  | AssertionError
  | UnpackError

section \<open>The directed graph of tree\_ok (networkx.DiGraph)\<close>

text \<open>
  Only what \<open>tree_ok\<close> uses of \<open>networkx.DiGraph\<close> is modelled: the nodes in insertion
  order, and the edges \<open>(u, v, label)\<close> in insertion order, at most one per ordered pair
  \<open>(u, v)\<close>. Adding an edge that exists overwrites its label and keeps its position.
\<close>

record digraph =
  g_nodes :: "string list"
  g_edges :: "(string \<times> string \<times> string) list"

definition empty_graph :: digraph where
  "empty_graph = \<lparr>g_nodes = [], g_edges = []\<rparr>"

definition add_node :: "digraph \<Rightarrow> string \<Rightarrow> digraph" where
  "add_node T v = (if v \<in> set (g_nodes T) then T else T\<lparr>g_nodes := g_nodes T @ [v]\<rparr>)"

fun set_label :: "string \<Rightarrow> string \<Rightarrow> string \<Rightarrow> (string \<times> string \<times> string) list
    \<Rightarrow> (string \<times> string \<times> string) list" where
  "set_label u v l [] = [(u, v, l)]"
| "set_label u v l ((a, b, k) # es) =
     (if a = u \<and> b = v then (a, b, l) # es else (a, b, k) # set_label u v l es)"

definition add_edge :: "digraph \<Rightarrow> string \<Rightarrow> string \<Rightarrow> string \<Rightarrow> digraph" where
  "add_edge T u v l =
     (let T1 = add_node (add_node T u) v in T1\<lparr>g_edges := set_label u v l (g_edges T1)\<rparr>)"

definition out_edges :: "digraph \<Rightarrow> string \<Rightarrow> (string \<times> string \<times> string) list" where
  "out_edges T v = filter (\<lambda>(a, b, l). a = v) (g_edges T)"

definition in_edges :: "digraph \<Rightarrow> string \<Rightarrow> (string \<times> string \<times> string) list" where
  "in_edges T v = filter (\<lambda>(a, b, l). b = v) (g_edges T)"

definition successors :: "digraph \<Rightarrow> string \<Rightarrow> string list" where
  "successors T v = map (\<lambda>(a, b, l). b) (out_edges T v)"

text \<open>\<open>[attr['label'] for attr in T.adj[v].values()]\<close>\<close>

definition out_labels :: "digraph \<Rightarrow> string \<Rightarrow> string list" where
  "out_labels T v = map (\<lambda>(a, b, l). l) (out_edges T v)"

definition in_degree :: "digraph \<Rightarrow> string \<Rightarrow> nat" where
  "in_degree T v = length (in_edges T v)"

text \<open>\<open>T.degree()[v]\<close>: in-degree plus out-degree.\<close>

definition degree :: "digraph \<Rightarrow> string \<Rightarrow> nat" where
  "degree T v = length (in_edges T v) + length (out_edges T v)"

subsection \<open>networkx.is\_branching\<close>

text \<open>
  \<open>is_branching(G) = is_forest(G) and max(in-degrees) <= 1\<close>, and \<open>is_forest\<close> of a directed
  graph asks of every weakly connected component \<open>c\<close> that \<open>len(c) - 1\<close> is its number of
  edges. The components are computed by merging, for every edge, the blocks of its two ends.
\<close>

fun merge_blocks :: "string \<Rightarrow> string \<Rightarrow> string list list \<Rightarrow> string list list" where
  "merge_blocks u v bs =
     (let bu = filter (\<lambda>b. u \<in> set b) bs;
          bv = filter (\<lambda>b. v \<in> set b \<and> u \<notin> set b) bs;
          rest = filter (\<lambda>b. u \<notin> set b \<and> v \<notin> set b) bs
      in (concat bu @ concat bv) # rest)"

fun components_of :: "(string \<times> string \<times> string) list \<Rightarrow> string list list \<Rightarrow> string list list" where
  "components_of [] bs = bs"
| "components_of ((u, v, l) # es) bs = components_of es (merge_blocks u v bs)"

definition weakly_connected_components :: "digraph \<Rightarrow> string list list" where
  "weakly_connected_components T = components_of (g_edges T) (map (\<lambda>v. [v]) (g_nodes T))"

definition edges_within :: "digraph \<Rightarrow> string list \<Rightarrow> nat" where
  "edges_within T c = length (filter (\<lambda>(a, b, l). a \<in> set c \<and> b \<in> set c) (g_edges T))"

definition is_forest :: "digraph \<Rightarrow> bool" where
  "is_forest T =
     list_all (\<lambda>c. int (length c) - 1 = int (edges_within T c)) (weakly_connected_components T)"

definition is_branching :: "digraph \<Rightarrow> bool" where
  "is_branching T = (is_forest T \<and> list_all (\<lambda>v. in_degree T v \<le> 1) (g_nodes T))"

subsection \<open>networkx.single\_source\_shortest\_path\<close>

text \<open>
  Breadth-first search by levels. \<open>paths\<close> is the dictionary from a reached node to its
  path from the source, in insertion order; a node enters \<open>nextlevel\<close> when it enters
  \<open>paths\<close>.
\<close>

type_synonym path_dict = "(string \<times> string list) list"

definition path_of :: "path_dict \<Rightarrow> string \<Rightarrow> string list" where
  "path_of paths v = (case map_of paths v of Some p \<Rightarrow> p | None \<Rightarrow> [])"

fun visit_succs :: "string list \<Rightarrow> string list \<Rightarrow> path_dict \<times> string list
    \<Rightarrow> path_dict \<times> string list" where
  "visit_succs pv [] acc = acc"
| "visit_succs pv (w # ws) (paths, nextlevel) =
     (if w \<in> fst ` set paths then visit_succs pv ws (paths, nextlevel)
      else visit_succs pv ws (paths @ [(w, pv @ [w])], nextlevel @ [w]))"

fun visit_level :: "digraph \<Rightarrow> string list \<Rightarrow> path_dict \<times> string list
    \<Rightarrow> path_dict \<times> string list" where
  "visit_level T [] acc = acc"
| "visit_level T (v # vs) (paths, nextlevel) =
     visit_level T vs (visit_succs (path_of paths v) (successors T v) (paths, nextlevel))"

text \<open>Termination of the search: every level that is not empty reaches a node that was not reached before.\<close>

definition dict_keys :: "path_dict \<Rightarrow> string set" where
  "dict_keys ps = fst ` set ps"

lemma dict_keys_append [simp]: "dict_keys (ps @ [(w, p)]) = insert w (dict_keys ps)"
  by (simp add: dict_keys_def)

lemma visit_succs_inv:
  "visit_succs pv ws (ps, nl) = (ps', nl') \<Longrightarrow>
     dict_keys ps \<subseteq> dict_keys ps' \<and>
     set nl' \<subseteq> set nl \<union> ((set ws \<inter> dict_keys ps') - dict_keys ps)"
proof (induction ws arbitrary: ps nl)
  case Nil
  then show ?case by simp
next
  case (Cons w ws)
  show ?case
  proof (cases "w \<in> dict_keys ps")
    case True
    with Cons.prems have "visit_succs pv ws (ps, nl) = (ps', nl')"
      by (simp add: dict_keys_def)
    from Cons.IH [OF this] show ?thesis by auto
  next
    case False
    with Cons.prems have "visit_succs pv ws (ps @ [(w, pv @ [w])], nl @ [w]) = (ps', nl')"
      by (simp add: dict_keys_def)
    from Cons.IH [OF this] False show ?thesis by auto
  qed
qed

definition targets :: "digraph \<Rightarrow> string set" where
  "targets T = (\<lambda>(a, b, l). b) ` set (g_edges T)"

lemma successors_targets: "set (successors T v) \<subseteq> targets T"
  by (force simp: successors_def out_edges_def targets_def)

lemma visit_level_inv:
  "visit_level T vs (ps, nl) = (ps', nl') \<Longrightarrow>
     dict_keys ps \<subseteq> dict_keys ps' \<and>
     set nl' \<subseteq> set nl \<union> ((targets T \<inter> dict_keys ps') - dict_keys ps)"
proof (induction vs arbitrary: ps nl)
  case Nil
  then show ?case by simp
next
  case (Cons v vs)
  obtain ps1 nl1 where s: "visit_succs (path_of ps v) (successors T v) (ps, nl) = (ps1, nl1)"
    by (cases "visit_succs (path_of ps v) (successors T v) (ps, nl)")
  with Cons.prems have r: "visit_level T vs (ps1, nl1) = (ps', nl')" by simp
  from visit_succs_inv [OF s] Cons.IH [OF r] successors_targets [of T v]
  show ?case by blast
qed

definition bfs_measure :: "digraph \<times> string list \<times> path_dict \<Rightarrow> nat" where
  "bfs_measure = (\<lambda>(T, nl, ps). card (targets T - dict_keys ps) + (if nl = [] then 0 else 1))"

lemma bfs_decreases:
  assumes eq: "visit_level T (v # vs) (ps, []) = (ps', nl')"
  shows "bfs_measure (T, nl', ps') < bfs_measure (T, v # vs, ps)"
proof -
  have fin: "finite (targets T)" by (simp add: targets_def)
  from visit_level_inv [OF eq]
  have sub: "dict_keys ps \<subseteq> dict_keys ps'"
    and nl: "set nl' \<subseteq> (targets T \<inter> dict_keys ps') - dict_keys ps" by auto
  have le: "card (targets T - dict_keys ps') \<le> card (targets T - dict_keys ps)"
    using sub fin by (intro card_mono) auto
  show ?thesis
  proof (cases nl')
    case Nil
    with le show ?thesis by (simp add: bfs_measure_def)
  next
    case (Cons w ws)
    with nl have w: "w \<in> targets T" "w \<in> dict_keys ps'" "w \<notin> dict_keys ps" by auto
    have "targets T - dict_keys ps' \<subset> targets T - dict_keys ps"
      using sub w by blast
    then have "card (targets T - dict_keys ps') < card (targets T - dict_keys ps)"
      using fin by (intro psubset_card_mono) auto
    with Cons show ?thesis by (simp add: bfs_measure_def)
  qed
qed

function bfs_loop :: "digraph \<Rightarrow> string list \<Rightarrow> path_dict \<Rightarrow> path_dict" where
  "bfs_loop T [] paths = paths"
| "bfs_loop T (v # vs) paths =
     (case visit_level T (v # vs) (paths, []) of
        (paths', nextlevel) \<Rightarrow> bfs_loop T nextlevel paths')"
  by pat_completeness auto
termination
  apply (relation "measure bfs_measure")
   apply simp
  apply (simp add: bfs_decreases)
  done


definition single_source_shortest_path :: "digraph \<Rightarrow> string \<Rightarrow> path_dict" where
  "single_source_shortest_path T source = bfs_loop T [source] [(source, [source])]"

section \<open>The proof-tree validator tree\_ok (check\_proof.py)\<close>

text \<open>A claim is the pair of its path to the root and its asserted trivial word, both
  lists of words.\<close>

type_synonym claim = "string list \<times> string list"

definition paths_to_root :: "claim list \<Rightarrow> string list list" where
  "paths_to_root claims = map fst claims"

text \<open>The inner loop \<open>for g in path\<close>: it returns the graph and the last vertex.\<close>

fun add_path :: "digraph \<Rightarrow> string \<Rightarrow> string list \<Rightarrow> digraph \<times> string" where
  "add_path T vert [] = (T, vert)"
| "add_path T vert (g # gs) =
     (let new_vert = vert @ ''.'' @ g in add_path (add_edge T vert new_vert g) new_vert gs)"

text \<open>The outer loop \<open>for path in paths\<close>, with \<open>leaves.append(vert)\<close>.\<close>

fun add_paths :: "digraph \<Rightarrow> string list \<Rightarrow> string list list \<Rightarrow> digraph \<times> string list" where
  "add_paths T leaves [] = (T, leaves)"
| "add_paths T leaves (path # paths) =
     (case add_path T ''1'' path of (T', vert) \<Rightarrow> add_paths T' (leaves @ [vert]) paths)"

text \<open>
  The loop \<open>for v in T.nodes()\<close> of the trivalence check, with the counter \<open>leaf_count\<close>.
  \<open>Inr None\<close> is an early \<open>return False\<close>; \<open>Inl UnpackError\<close> is the exception of
  \<open>w0, w1 = [...]\<close> when the vertex has not exactly two outgoing edges.
\<close>

fun degree_loop :: "digraph \<Rightarrow> string list \<Rightarrow> string list \<Rightarrow> nat \<Rightarrow> error + nat option" where
  "degree_loop T leaves [] leaf_count = Inr (Some leaf_count)"
| "degree_loop T leaves (v # vs) leaf_count =
     (if v \<in> set leaves then
        (if degree T v \<noteq> 1 then Inr None
         else degree_loop T leaves vs (leaf_count + 1))
      else
        (if degree T v \<noteq> 3 then Inr None
         else (case out_labels T v of
                 [w0, w1] \<Rightarrow>
                   if invert_word w0 \<noteq> w1 then Inr None
                   else degree_loop T leaves vs leaf_count
               | _ \<Rightarrow> Inl UnpackError)))"

text \<open>The last loop: every vertex on the path from the root to \<open>v\<close> is a prefix of \<open>v\<close>.\<close>

definition prefix_check :: "path_dict \<Rightarrow> bool" where
  "prefix_check paths_from_root =
     list_all (\<lambda>(v, path). list_all (\<lambda>p. prefix p v) path) paths_from_root"

text \<open>The first loop of \<open>tree_ok\<close>: the tree \<open>T\<close> and the list \<open>leaves\<close>, which starts as \<open>['1']\<close>.\<close>

definition build_tree :: "claim list \<Rightarrow> digraph \<times> string list" where
  "build_tree claims =
     add_paths (add_node empty_graph ''1'') [''1''] (paths_to_root claims)"

definition tree_ok :: "claim list \<Rightarrow> error + bool" where
  "tree_ok claims =
     (case build_tree claims of
        (T, leaves) \<Rightarrow>
          if \<not> is_branching T then Inr False
          else (case degree_loop T leaves (g_nodes T) 0 of
                  Inl e \<Rightarrow> Inl e
                | Inr None \<Rightarrow> Inr False
                | Inr (Some leaf_count) \<Rightarrow>
                    if leaf_count \<noteq> length leaves then Inr False
                    else Inr (prefix_check (single_source_shortest_path T ''1''))))"

section \<open>Invariants of the tree that tree\_ok builds\<close>

text \<open>
  Every edge leads from a vertex \<open>u\<close> to \<open>u + '.' + label\<close>; the vertex a path ends in is
  computed from the path alone; every vertex but the root is the head of an edge.
\<close>

definition edges_wf :: "(string \<times> string \<times> string) list \<Rightarrow> bool" where
  "edges_wf es = (\<forall>(u, v, l) \<in> set es. v = u @ ''.'' @ l)"

fun path_vertex :: "string \<Rightarrow> string list \<Rightarrow> string" where
  "path_vertex vert [] = vert"
| "path_vertex vert (g # gs) = path_vertex (vert @ ''.'' @ g) gs"

definition nodes_wf :: "digraph \<Rightarrow> bool" where
  "nodes_wf T = (set (g_nodes T) \<subseteq> insert ''1'' (targets T))"

section \<open>The certified word-problem solver (word\_problem.py)\<close>

subsection \<open>The interval arithmetic the solver is given\<close>

text \<open>
  Interval matrices and interval numbers come from SnapPy and Sage, not from this
  repository. They are a parameter: a record of the operations the source calls, over a
  type \<open>'m\<close> of interval matrices, \<open>'c\<close> of complex intervals and \<open>'r\<close> of real intervals.
  \<^item> \<open>mat_mul\<close> is \<open>A * B\<close>, \<open>mat_trace\<close> is \<open>x.trace()\<close>;
  \<^item> \<open>SL2C_inverse\<close> and \<open>contains_one\<close> are the SnapPy functions of these names;
  \<^item> \<open>c_sqr\<close> is \<open>z ** 2\<close>, \<open>c_sub_int\<close> is \<open>z - n\<close> for a Python integer \<open>n\<close>,
    \<open>c_abs\<close> is \<open>abs(z)\<close>;
  \<^item> \<open>r_add\<close> is \<open>x + y\<close>, \<open>r_lt\<close> is \<open>x < y\<close> and \<open>r_lt_int\<close> is \<open>x < n\<close> on real
    intervals.
\<close>

record ('m, 'c, 'r) interval_ops =
  mat_mul :: "'m \<Rightarrow> 'm \<Rightarrow> 'm"
  SL2C_inverse :: "'m \<Rightarrow> 'm"
  mat_trace :: "'m \<Rightarrow> 'c"
  contains_one :: "'m \<Rightarrow> bool"
  c_sqr :: "'c \<Rightarrow> 'c"
  c_sub_int :: "'c \<Rightarrow> int \<Rightarrow> 'c"
  c_abs :: "'c \<Rightarrow> 'r"
  r_add :: "'r \<Rightarrow> 'r \<Rightarrow> 'r"
  r_lt :: "'r \<Rightarrow> 'r \<Rightarrow> bool"
  r_lt_int :: "'r \<Rightarrow> int \<Rightarrow> bool"

text \<open>
  Python's built-in \<open>min(a, b)\<close> keeps its first argument unless \<open>b < a\<close> holds; on
  intervals \<open>b < a\<close> is the comparison of the provider.
\<close>

definition py_min :: "('m, 'c, 'r) interval_ops \<Rightarrow> 'r \<Rightarrow> 'r \<Rightarrow> 'r" where
  "py_min ops a b = (if r_lt ops b a then b else a)"

subsection \<open>jorgensens\_inequality\_fails\<close>

definition jorgensens_inequality_fails ::
    "('m, 'c, 'r) interval_ops \<Rightarrow> 'm \<Rightarrow> 'm \<Rightarrow> error + bool" where
  "jorgensens_inequality_fails ops A B =
     (let Ainv = SL2C_inverse ops A;
          Binv = SL2C_inverse ops B
      in if \<not> (contains_one ops (mat_mul ops A Ainv) \<and> contains_one ops (mat_mul ops B Binv))
         then Inl AssertionError
         else
           (let first_term =
                  py_min ops (c_abs ops (c_sub_int ops (c_sqr ops (mat_trace ops A)) 4))
                             (c_abs ops (c_sub_int ops (c_sqr ops (mat_trace ops B)) 4));
                mu = r_add ops first_term
                       (c_abs ops (c_sub_int ops
                          (mat_trace ops (mat_mul ops (mat_mul ops (mat_mul ops A B) Ainv) Binv)) 2))
            in Inr (r_lt_int ops mu 1)))"

subsection \<open>is\_manifold\<close>

text \<open>
  The filling coefficients of a cusp are floating-point numbers; each is a rational
  number. \<open>ZZ(a)\<close> returns the integer \<open>a\<close> is, and raises \<open>TypeError\<close> when \<open>a\<close> is not an
  integer: \<open>None\<close> here.
\<close>

definition ZZ :: "rat \<Rightarrow> int option" where
  "ZZ a = (if of_int \<lfloor>a\<rfloor> = a then Some \<lfloor>a\<rfloor> else None)"

fun is_manifold :: "(rat \<times> rat) list \<Rightarrow> bool" where
  "is_manifold [] = True"
| "is_manifold ((a, b) # cusps) =
     (case (ZZ a, ZZ b) of
        (Some a', Some b') \<Rightarrow>
          if a' = 0 \<and> b' = 0 then is_manifold cusps
          else if gcd a' b' \<noteq> 1 then False
          else is_manifold cusps
      | _ \<Rightarrow> False)"

subsection \<open>WordProblemSolver\<close>

text \<open>
  The holonomy representation \<open>rho\<close> that \<open>verify_hyperbolicity\<close> returns: its generators,
  its relators, and \<open>rho(word)\<close>. A manifold gives its filling coefficients
  (\<open>cusp_info('filling')\<close>) and \<open>verify_hyperbolicity(bits_prec, fundamental_group_args)\<close>,
  which returns \<open>(success, rho)\<close>.
\<close>

record 'm holonomy =
  generators :: "string list"
  relators :: "string list"
  rho_eval :: "string \<Rightarrow> 'm"

record 'm manifold =
  cusp_filling :: "(rat \<times> rat) list"
  verify_hyperbolicity :: "nat \<Rightarrow> int list \<Rightarrow> bool \<times> 'm holonomy"

record 'm solver =
  rho :: "'m holonomy"
  noncommmuting_gens :: "string \<times> string"
  noncommmuting_mats :: "'m \<times> 'm"

text \<open>\<open>pairs(xs)\<close>: every \<open>(x, y)\<close> with \<open>x\<close> before \<open>y\<close> in \<open>xs\<close>, in the order of the generator.\<close>

fun pairs :: "'a list \<Rightarrow> ('a \<times> 'a) list" where
  "pairs [] = []"
| "pairs (x # xs) = map (Pair x) xs @ pairs xs"

definition upper_char :: "char \<Rightarrow> char" where
  "upper_char c =
     (let n = (of_char c :: nat) in if 97 \<le> n \<and> n \<le> 122 then char_of (n - 32) else c)"

definition upper :: "string \<Rightarrow> string" where
  "upper w = map upper_char w"

text \<open>The loop of \<open>_find_noncommuting_gens\<close> over the pairs that are left.\<close>

fun find_noncommuting :: "('m, 'c, 'r) interval_ops \<Rightarrow> 'm holonomy \<Rightarrow> (string \<times> string) list
    \<Rightarrow> error + (string \<times> string) \<times> ('m \<times> 'm)" where
  "find_noncommuting ops r [] = Inl NoNoncommutingGens"
| "find_noncommuting ops r ((g, h) # ps) =
     (if \<not> contains_one ops (rho_eval r (g @ h @ upper (g @ h)))
      then Inr ((g, h), (rho_eval r g, rho_eval r h))
      else find_noncommuting ops r ps)"

definition find_noncommuting_gens :: "('m, 'c, 'r) interval_ops \<Rightarrow> 'm holonomy
    \<Rightarrow> error + (string \<times> string) \<times> ('m \<times> 'm)" where
  "find_noncommuting_gens ops r = find_noncommuting ops r (pairs (generators r))"

text \<open>\<open>WordProblemSolver.__init__(manifold, bits_prec, fundamental_group_args)\<close>\<close>

definition WordProblemSolver :: "('m, 'c, 'r) interval_ops \<Rightarrow> 'm manifold \<Rightarrow> nat \<Rightarrow> int list
    \<Rightarrow> error + 'm solver" where
  "WordProblemSolver ops M bits_prec fundamental_group_args =
     (if \<not> is_manifold (cusp_filling M) then Inl UnsupportedTopology
      else (case verify_hyperbolicity M bits_prec fundamental_group_args of
              (success, r) \<Rightarrow>
                if \<not> success then Inl HolonomyUnverified
                else (case find_noncommuting_gens ops r of
                        Inl e \<Rightarrow> Inl e
                      | Inr (gens, mats) \<Rightarrow>
                          Inr \<lparr>rho = r, noncommmuting_gens = gens, noncommmuting_mats = mats\<rparr>)))"

definition is_nontrivial :: "('m, 'c, 'r) interval_ops \<Rightarrow> 'm solver \<Rightarrow> string \<Rightarrow> error + bool" where
  "is_nontrivial ops s word =
     (let X = rho_eval (rho s) word in
      if \<not> contains_one ops X then Inr True
      else (case noncommmuting_mats s of
              (A, B) \<Rightarrow>
                (case jorgensens_inequality_fails ops X A of
                   Inl e \<Rightarrow> Inl e
                 | Inr False \<Rightarrow> Inl PrecisionInsufficient
                 | Inr True \<Rightarrow>
                     (case jorgensens_inequality_fails ops X B of
                        Inl e \<Rightarrow> Inl e
                      | Inr False \<Rightarrow> Inl PrecisionInsufficient
                      | Inr True \<Rightarrow> Inr False))))"

definition is_trivial :: "('m, 'c, 'r) interval_ops \<Rightarrow> 'm solver \<Rightarrow> string \<Rightarrow> error + bool" where
  "is_trivial ops s word =
     (case is_nontrivial ops s word of Inl e \<Rightarrow> Inl e | Inr b \<Rightarrow> Inr (\<not> b))"

section \<open>The proof checker (check\_proof.py)\<close>

text \<open>
  \<open>all(f(x) for x in xs)\<close> stops at the first \<open>False\<close>; an exception of \<open>f\<close> ends it.
\<close>

fun py_all :: "('a \<Rightarrow> error + bool) \<Rightarrow> 'a list \<Rightarrow> error + bool" where
  "py_all f [] = Inr True"
| "py_all f (x # xs) =
     (case f x of Inl e \<Rightarrow> Inl e | Inr False \<Rightarrow> Inr False | Inr True \<Rightarrow> py_all f xs)"

text \<open>
  \<open>edge_labels = set(sum(paths_to_root(claims), []))\<close> is iterated in an order Python does
  not fix (the hash of a string changes from run to run). The order is the parameter
  \<open>set_iter\<close>, which enumerates the set of the elements of a list.
\<close>

definition set_iter_ok :: "(string list \<Rightarrow> string list) \<Rightarrow> bool" where
  "set_iter_ok set_iter = (\<forall>xs. distinct (set_iter xs) \<and> set (set_iter xs) = set xs)"

definition all_nontrivial_edge_labels :: "('m, 'c, 'r) interval_ops
    \<Rightarrow> (string list \<Rightarrow> string list) \<Rightarrow> 'm solver \<Rightarrow> claim list \<Rightarrow> error + bool" where
  "all_nontrivial_edge_labels ops set_iter s claims =
     (let edge_labels = set_iter (concat (paths_to_root claims))
      in py_all (is_nontrivial ops s) edge_labels)"

definition check_claim :: "('m, 'c, 'r) interval_ops \<Rightarrow> 'm solver \<Rightarrow> claim \<Rightarrow> error + bool" where
  "check_claim ops s claim =
     (case claim of
        (path_to_root, trivial_word) \<Rightarrow>
          (case is_trivial ops s (concat trivial_word) of
             Inl e \<Rightarrow> Inl e
           | Inr is_one \<Rightarrow> Inr (set trivial_word \<subseteq> set path_to_root \<and> is_one)))"

text \<open>\<open>s.split('.')\<close>\<close>

fun split_dot :: "string \<Rightarrow> string list" where
  "split_dot [] = [[]]"
| "split_dot (c # cs) =
     (if c = CHR ''.'' then [] # split_dot cs
      else (case split_dot cs of w # ws \<Rightarrow> (c # w) # ws | [] \<Rightarrow> [[c]]))"

text \<open>
  A proof record after \<open>json.loads\<close>, and \<open>snappy.Manifold(name)\<close> as the parameter
  \<open>Manifold\<close>.
\<close>

record proof_record =
  pr_rels :: "string list"
  pr_group_args :: "int list"
  pr_proof :: "(string \<times> string) list"
  pr_name :: string
  pr_gens :: string

text \<open>\<open>claims = [(a.split('.'), b.split('.')) for a, b in proof['proof']]\<close>\<close>

definition parsed_claims :: "proof_record \<Rightarrow> claim list" where
  "parsed_claims p = map (\<lambda>(a, b). (split_dot a, split_dot b)) (pr_proof p)"

definition check_proof :: "('m, 'c, 'r) interval_ops \<Rightarrow> (string list \<Rightarrow> string list)
    \<Rightarrow> (string \<Rightarrow> 'm manifold) \<Rightarrow> proof_record \<Rightarrow> error + bool" where
  "check_proof ops set_iter Manifold p =
     (let M = Manifold (pr_name p) in
      case WordProblemSolver ops M 100 (pr_group_args p) of
        Inl e \<Rightarrow> Inl e
      | Inr s \<Rightarrow>
          if generators (rho s) \<noteq> split_dot (pr_gens p) then Inl AssertionError
          else if relators (rho s) \<noteq> pr_rels p then Inl AssertionError
          else
            (let claims = parsed_claims p in
             case tree_ok claims of
               Inl e \<Rightarrow> Inl e
             | Inr a0 \<Rightarrow>
                 (case all_nontrivial_edge_labels ops set_iter s claims of
                    Inl e \<Rightarrow> Inl e
                  | Inr a1 \<Rightarrow>
                      (case py_all (check_claim ops s) claims of
                         Inl e \<Rightarrow> Inl e
                       | Inr a2 \<Rightarrow> Inr (a0 \<and> a1 \<and> a2)))))"

section \<open>What the solver asserts and computes, and the specification's two calls\<close>

text \<open>
  The source assumes of every matrix it is given that it contains an element of
  SL(2, C), and asserts what it can check of that: the product of the matrix with its
  formal inverse contains the identity.
\<close>

definition inverse_certified :: "('m, 'c, 'r) interval_ops \<Rightarrow> 'm \<Rightarrow> bool" where
  "inverse_certified ops P = contains_one ops (mat_mul ops P (SL2C_inverse ops P))"

text \<open>
  The interval \<open>mu\<close> as the source computes it (\<open>first_term + abs(...)\<close>): its \<open>min\<close> is
  Python's built-in, \<open>py_min\<close>, which is not the minimum of two intervals. The
  specification's \<open>mu\<close> is \<open>spec_mu\<close> below.
\<close>

definition code_mu :: "('m, 'c, 'r) interval_ops \<Rightarrow> 'm \<Rightarrow> 'm \<Rightarrow> 'r" where
  "code_mu ops P Q =
     r_add ops
       (py_min ops (c_abs ops (c_sub_int ops (c_sqr ops (mat_trace ops P)) 4))
                   (c_abs ops (c_sub_int ops (c_sqr ops (mat_trace ops Q)) 4)))
       (c_abs ops (c_sub_int ops
          (mat_trace ops
             (mat_mul ops (mat_mul ops (mat_mul ops P Q) (SL2C_inverse ops P))
                (SL2C_inverse ops Q))) 2))"

text \<open>
  The specification's wording of the disambiguation step, with the source's test: for
  each anchor \<open>jorgensens_inequality_fails\<close> is applied to \<open>(X, anchor)\<close> and to
  \<open>(anchor, X)\<close> and the two results are joined by \<open>or\<close>. This is not the source's
  \<open>is_nontrivial\<close>; it is compared with it below.
\<close>

definition is_nontrivial_both_directions ::
    "('m, 'c, 'r) interval_ops \<Rightarrow> 'm solver \<Rightarrow> string \<Rightarrow> error + bool" where
  "is_nontrivial_both_directions ops s word =
     (let X = rho_eval (rho s) word in
      if \<not> contains_one ops X then Inr True
      else (case noncommmuting_mats s of
              (A, B) \<Rightarrow>
                (case (jorgensens_inequality_fails ops X A, jorgensens_inequality_fails ops A X,
                       jorgensens_inequality_fails ops X B, jorgensens_inequality_fails ops B X) of
                   (Inr xa, Inr ax, Inr xb, Inr bx) \<Rightarrow>
                     if (xa \<or> ax) \<and> (xb \<or> bx) then Inr False else Inl PrecisionInsufficient
                 | _ \<Rightarrow> Inl AssertionError)))"

section \<open>An exact provider of interval arithmetic\<close>

text \<open>
  An instance of the provider for concrete inputs: real intervals \<open>(lo, hi)\<close> whose end
  points are computed exactly (no rounding), complex intervals as rectangles
  \<open>(re, im)\<close>, and two by two matrices \<open>(a, b, c, d)\<close> of complex intervals, by rows.
\<close>

type_synonym ivl = "real \<times> real"
type_synonym civl = "ivl \<times> ivl"
type_synonym cmat = "civl \<times> civl \<times> civl \<times> civl"

definition iv_add :: "ivl \<Rightarrow> ivl \<Rightarrow> ivl" where
  "iv_add x y = (fst x + fst y, snd x + snd y)"

definition iv_neg :: "ivl \<Rightarrow> ivl" where
  "iv_neg x = (- snd x, - fst x)"

definition iv_sub :: "ivl \<Rightarrow> ivl \<Rightarrow> ivl" where
  "iv_sub x y = iv_add x (iv_neg y)"

definition iv_mul :: "ivl \<Rightarrow> ivl \<Rightarrow> ivl" where
  "iv_mul x y =
     (min (min (fst x * fst y) (fst x * snd y)) (min (snd x * fst y) (snd x * snd y)),
      max (max (fst x * fst y) (fst x * snd y)) (max (snd x * fst y) (snd x * snd y)))"

definition iv_sqr :: "ivl \<Rightarrow> ivl" where
  "iv_sqr x =
     (if 0 \<le> fst x then (fst x * fst x, snd x * snd x)
      else if snd x \<le> 0 then (snd x * snd x, fst x * fst x)
      else (0, max (fst x * fst x) (snd x * snd x)))"

definition iv_sqrt :: "ivl \<Rightarrow> ivl" where
  "iv_sqrt x = (sqrt (fst x), sqrt (snd x))"

definition iv_abs :: "ivl \<Rightarrow> ivl" where
  "iv_abs x =
     (if 0 \<le> fst x then x
      else if snd x \<le> 0 then (- snd x, - fst x)
      else (0, max (- fst x) (snd x)))"

definition iv_lt :: "ivl \<Rightarrow> ivl \<Rightarrow> bool" where
  "iv_lt x y = (snd x < fst y)"

definition iv_contains_zero :: "ivl \<Rightarrow> bool" where
  "iv_contains_zero x = (fst x \<le> 0 \<and> 0 \<le> snd x)"

definition iv_of_int :: "int \<Rightarrow> ivl" where
  "iv_of_int n = (of_int n, of_int n)"

definition ci_add :: "civl \<Rightarrow> civl \<Rightarrow> civl" where
  "ci_add z w = (iv_add (fst z) (fst w), iv_add (snd z) (snd w))"

definition ci_neg :: "civl \<Rightarrow> civl" where
  "ci_neg z = (iv_neg (fst z), iv_neg (snd z))"

definition ci_mul :: "civl \<Rightarrow> civl \<Rightarrow> civl" where
  "ci_mul z w =
     (iv_sub (iv_mul (fst z) (fst w)) (iv_mul (snd z) (snd w)),
      iv_add (iv_mul (fst z) (snd w)) (iv_mul (snd z) (fst w)))"

definition ci_sub_int :: "civl \<Rightarrow> int \<Rightarrow> civl" where
  "ci_sub_int z n = (iv_sub (fst z) (iv_of_int n), snd z)"

definition ci_abs :: "civl \<Rightarrow> ivl" where
  "ci_abs z = iv_sqrt (iv_add (iv_sqr (fst z)) (iv_sqr (snd z)))"

definition ci_contains_zero :: "civl \<Rightarrow> bool" where
  "ci_contains_zero z = (iv_contains_zero (fst z) \<and> iv_contains_zero (snd z))"

definition cm_mul :: "cmat \<Rightarrow> cmat \<Rightarrow> cmat" where
  "cm_mul P Q =
     (case P of (a, b, c, d) \<Rightarrow> case Q of (e, f, g, h) \<Rightarrow>
        (ci_add (ci_mul a e) (ci_mul b g), ci_add (ci_mul a f) (ci_mul b h),
         ci_add (ci_mul c e) (ci_mul d g), ci_add (ci_mul c f) (ci_mul d h)))"

definition cm_inverse :: "cmat \<Rightarrow> cmat" where
  "cm_inverse P = (case P of (a, b, c, d) \<Rightarrow> (d, ci_neg b, ci_neg c, a))"

definition cm_trace :: "cmat \<Rightarrow> civl" where
  "cm_trace P = (case P of (a, b, c, d) \<Rightarrow> ci_add a d)"

definition cm_contains_one :: "cmat \<Rightarrow> bool" where
  "cm_contains_one P =
     (case P of (a, b, c, d) \<Rightarrow>
        ci_contains_zero (ci_sub_int a 1) \<and> ci_contains_zero b
        \<and> ci_contains_zero c \<and> ci_contains_zero (ci_sub_int d 1))"

definition exact_ops :: "(cmat, civl, ivl) interval_ops" where
  "exact_ops =
     \<lparr>mat_mul = cm_mul, SL2C_inverse = cm_inverse, mat_trace = cm_trace,
      contains_one = cm_contains_one, c_sqr = (\<lambda>z. ci_mul z z), c_sub_int = ci_sub_int,
      c_abs = ci_abs, r_add = iv_add, r_lt = iv_lt,
      r_lt_int = (\<lambda>x n. iv_lt x (iv_of_int n))\<rparr>"

subsection \<open>A representation with a smeared generator\<close>

text \<open>
  Matrices with real entries; \<open>a\<close> and \<open>b\<close> are the two parabolic generators
  \<open>[[1, 1], [0, 1]]\<close> and \<open>[[1, 0], [1, 1]]\<close>, known exactly; \<open>c\<close> is an enclosure of the
  identity whose diagonal entries are only known up to one tenth, \<open>d\<close> one known up to one
  hundredth; \<open>e\<close> is the matrix \<open>[[0, -1], [1, 0]]\<close>, whose fourth power is the identity.
  An upper-case letter is the inverse; a word is the product of its letters.
\<close>

definition real_civl :: "real \<Rightarrow> real \<Rightarrow> civl" where
  "real_civl lo hi = ((lo, hi), (0, 0))"

definition real_mat :: "ivl \<Rightarrow> ivl \<Rightarrow> ivl \<Rightarrow> ivl \<Rightarrow> cmat" where
  "real_mat a b c d = ((a, (0, 0)), (b, (0, 0)), (c, (0, 0)), (d, (0, 0)))"

definition mat_id :: cmat where
  "mat_id = real_mat (1, 1) (0, 0) (0, 0) (1, 1)"

definition mat_a :: cmat where
  "mat_a = real_mat (1, 1) (1, 1) (0, 0) (1, 1)"

definition mat_b :: cmat where
  "mat_b = real_mat (1, 1) (0, 0) (1, 1) (1, 1)"

definition mat_c :: cmat where
  "mat_c = real_mat (9 / 10, 11 / 10) (0, 0) (0, 0) (9 / 10, 11 / 10)"

definition mat_d :: cmat where
  "mat_d = real_mat (99 / 100, 101 / 100) (0, 0) (0, 0) (99 / 100, 101 / 100)"

definition mat_e :: cmat where
  "mat_e = real_mat (0, 0) (- 1, - 1) (1, 1) (0, 0)"

definition letter_mat :: "char \<Rightarrow> cmat" where
  "letter_mat x =
     (if x = CHR ''a'' then mat_a else if x = CHR ''A'' then cm_inverse mat_a
      else if x = CHR ''b'' then mat_b else if x = CHR ''B'' then cm_inverse mat_b
      else if x = CHR ''c'' then mat_c else if x = CHR ''C'' then cm_inverse mat_c
      else if x = CHR ''d'' then mat_d else if x = CHR ''D'' then cm_inverse mat_d
      else if x = CHR ''e'' then mat_e else if x = CHR ''E'' then cm_inverse mat_e
      else mat_id)"

fun word_mat :: "string \<Rightarrow> cmat" where
  "word_mat [] = mat_id"
| "word_mat [x] = letter_mat x"
| "word_mat (x # y # w) = cm_mul (letter_mat x) (word_mat (y # w))"

definition toy_rho :: "cmat holonomy" where
  "toy_rho = \<lparr>generators = [''a'', ''b'', ''c'', ''d'', ''e''],
     relators = [''c'', ''d'', ''eeee''],
     rho_eval = word_mat\<rparr>"

definition toy_manifold :: "cmat manifold" where
  "toy_manifold = \<lparr>cusp_filling = [(0, 0)], verify_hyperbolicity = (\<lambda>bits args. (True, toy_rho))\<rparr>"

definition toy_solver :: "cmat solver" where
  "toy_solver = \<lparr>rho = toy_rho, noncommmuting_gens = (''a'', ''b''),
     noncommmuting_mats = (mat_a, mat_b)\<rparr>"

definition toy_Manifold :: "string \<Rightarrow> cmat manifold" where
  "toy_Manifold name =
     (if name = ''toy(4,2)'' then toy_manifold\<lparr>cusp_filling := [(4, 2)]\<rparr> else toy_manifold)"

definition toy_proof :: "(string \<times> string) list \<Rightarrow> proof_record" where
  "toy_proof claims = \<lparr>pr_rels = [''c'', ''d'', ''eeee''], pr_group_args = [1, 1, 0],
     pr_proof = claims, pr_name = ''toy'', pr_gens = ''a.b.c.d.e''\<rparr>"

section \<open>What an interval matrix contains\<close>

text \<open>
  Membership of a real number in a real interval, of a complex number in a rectangle and
  of a complex matrix in an interval matrix; and the arithmetic of complex two by two
  matrices \<open>(a, b, c, d)\<close>, by rows, that the interval operations enclose.
\<close>

definition iv_mem :: "real \<Rightarrow> ivl \<Rightarrow> bool" where
  "iv_mem t x = (fst x \<le> t \<and> t \<le> snd x)"

definition ci_mem :: "complex \<Rightarrow> civl \<Rightarrow> bool" where
  "ci_mem z w = (iv_mem (Re z) (fst w) \<and> iv_mem (Im z) (snd w))"

definition cm_mem :: "complex \<times> complex \<times> complex \<times> complex \<Rightarrow> cmat \<Rightarrow> bool" where
  "cm_mem M P =
     (case M of (a, b, c, d) \<Rightarrow> case P of (pa, pb, pc, pd) \<Rightarrow>
        ci_mem a pa \<and> ci_mem b pb \<and> ci_mem c pc \<and> ci_mem d pd)"

type_synonym pmat = "complex \<times> complex \<times> complex \<times> complex"

definition pm_mul :: "pmat \<Rightarrow> pmat \<Rightarrow> pmat" where
  "pm_mul M N =
     (case M of (a, b, c, d) \<Rightarrow> case N of (e, f, g, h) \<Rightarrow>
        (a * e + b * g, a * f + b * h, c * e + d * g, c * f + d * h))"

definition pm_adj :: "pmat \<Rightarrow> pmat" where
  "pm_adj M = (case M of (a, b, c, d) \<Rightarrow> (d, - b, - c, a))"

definition pm_trace :: "pmat \<Rightarrow> complex" where
  "pm_trace M = (case M of (a, b, c, d) \<Rightarrow> a + d)"

text \<open>The left-hand side of Jorgensen's inequality with the minimum over both traces.\<close>

definition jorgensen_value :: "pmat \<Rightarrow> pmat \<Rightarrow> real" where
  "jorgensen_value M N =
     min (cmod ((pm_trace M)\<^sup>2 - 4)) (cmod ((pm_trace N)\<^sup>2 - 4))
     + cmod (pm_trace (pm_mul (pm_mul (pm_mul M N) (pm_adj M)) (pm_adj N)) - 2)"

section \<open>The specification's test in exact interval arithmetic\<close>

text \<open>
  The minimum of two intervals: the interval of the minima of their elements.
\<close>

definition iv_min :: "ivl \<Rightarrow> ivl \<Rightarrow> ivl" where
  "iv_min x y = (min (fst x) (fst y), min (snd x) (snd y))"

text \<open>
  The specification's quantity
  \<open>mu = min(|trace(P)^2 - 4|, |trace(Q)^2 - 4|) + |trace(P Q invert(P) invert(Q)) - 2|\<close>,
  computed in exact interval arithmetic with the minimum of intervals; and the
  specification's test, \<open>mu\<close> is provably less than 1. The docstring of
  \<open>jorgensens_inequality_fails\<close> says the same: both tests are applied and the result
  is \<open>True\<close> if either of them provably fails.
\<close>

definition spec_mu :: "cmat \<Rightarrow> cmat \<Rightarrow> ivl" where
  "spec_mu P Q =
     iv_add
       (iv_min (ci_abs (ci_sub_int (ci_mul (cm_trace P) (cm_trace P)) 4))
               (ci_abs (ci_sub_int (ci_mul (cm_trace Q) (cm_trace Q)) 4)))
       (ci_abs (ci_sub_int
          (cm_trace (cm_mul (cm_mul (cm_mul P Q) (cm_inverse P)) (cm_inverse Q))) 2))"

definition spec_jorgensen_fails :: "cmat \<Rightarrow> cmat \<Rightarrow> bool" where
  "spec_jorgensen_fails P Q = iv_lt (spec_mu P Q) (iv_of_int 1)"

text \<open>
  The specification's \<open>isNontrivial\<close>: nontrivial when \<open>X\<close> does not contain the identity;
  trivial when both anchors show the failure condition, in either direction; otherwise
  \<open>PrecisionInsufficient\<close>.
\<close>

definition is_nontrivial_spec :: "cmat solver \<Rightarrow> string \<Rightarrow> error + bool" where
  "is_nontrivial_spec s word =
     (let X = rho_eval (rho s) word in
      if \<not> cm_contains_one X then Inr True
      else (case noncommmuting_mats s of
              (A, B) \<Rightarrow>
                if (spec_jorgensen_fails X A \<or> spec_jorgensen_fails A X)
                   \<and> (spec_jorgensen_fails X B \<or> spec_jorgensen_fails B X)
                then Inr False
                else Inl PrecisionInsufficient))"

section \<open>Properties of invert\_word\<close>












section \<open>Properties of tree\_ok\<close>

subsection \<open>Invariants of the tree construction\<close>

lemma set_set_label:
  assumes "edges_wf es" "v = u @ ''.'' @ l"
  shows "set (set_label u v l es) = insert (u, v, l) (set es)"
  using assms(1)
proof (induction es)
  case Nil
  then show ?case by simp
next
  case (Cons e es)
  obtain a b k where e: "e = (a, b, k)" by (cases e)
  from Cons.prems e have b: "b = a @ ''.'' @ k" and wf: "edges_wf es"
    by (simp_all add: edges_wf_def)
  show ?case
  proof (cases "a = u \<and> b = v")
    case True
    with b assms(2) have "k = l" by simp
    with True e show ?thesis by auto
  next
    case False
    with e have "set_label u v l (e # es) = e # set_label u v l es" by auto
    with Cons.IH [OF wf] show ?thesis by auto
  qed
qed

lemma g_edges_add_node [simp]: "g_edges (add_node T v) = g_edges T"
  by (simp add: add_node_def)

lemma set_nodes_add_node [simp]: "set (g_nodes (add_node T v)) = insert v (set (g_nodes T))"
  by (auto simp: add_node_def)

lemma distinct_add_node [simp]: "distinct (g_nodes (add_node T v)) = distinct (g_nodes T)"
  by (simp add: add_node_def)

lemma g_nodes_add_edge [simp]:
  "set (g_nodes (add_edge T u v l)) = insert u (insert v (set (g_nodes T)))"
  by (auto simp: add_edge_def Let_def)

lemma distinct_add_edge [simp]: "distinct (g_nodes (add_edge T u v l)) = distinct (g_nodes T)"
  by (simp add: add_edge_def Let_def)

lemma g_edges_add_edge:
  "edges_wf (g_edges T) \<Longrightarrow>
     set (g_edges (add_edge T u (u @ ''.'' @ l) l)) = insert (u, u @ ''.'' @ l, l) (set (g_edges T))"
  by (simp add: add_edge_def Let_def set_set_label)

lemma edges_wf_add_edge:
  "edges_wf (g_edges T) \<Longrightarrow> edges_wf (g_edges (add_edge T u (u @ ''.'' @ l) l))"
  using g_edges_add_edge [of T u l] by (simp add: edges_wf_def)

lemma add_path_inv:
  assumes "add_path T vert path = (T', vert')" "edges_wf (g_edges T)"
  shows "edges_wf (g_edges T') \<and> set (g_edges T) \<subseteq> set (g_edges T')
    \<and> set (g_nodes T) \<subseteq> set (g_nodes T')
    \<and> distinct (g_nodes T') = distinct (g_nodes T)
    \<and> vert' = path_vertex vert path
    \<and> (vert \<in> set (g_nodes T) \<longrightarrow> vert' \<in> set (g_nodes T'))
    \<and> (\<forall>g gs. path = g # gs \<longrightarrow> (vert, vert @ ''.'' @ g, g) \<in> set (g_edges T'))"
  using assms
proof (induction path arbitrary: T vert)
  case Nil
  then show ?case by simp
next
  case (Cons g gs)
  let ?T1 = "add_edge T vert (vert @ ''.'' @ g) g"
  from Cons.prems have r: "add_path ?T1 (vert @ ''.'' @ g) gs = (T', vert')"
    by (simp add: Let_def)
  have wf1: "edges_wf (g_edges ?T1)" using Cons.prems(2) by (rule edges_wf_add_edge)
  have e1: "set (g_edges ?T1) = insert (vert, vert @ ''.'' @ g, g) (set (g_edges T))"
    using Cons.prems(2) by (rule g_edges_add_edge)
  from Cons.IH [OF r wf1] e1 show ?case by auto
qed

lemma add_paths_inv:
  assumes "add_paths T leaves paths = (T', leaves')" "edges_wf (g_edges T)"
  shows "edges_wf (g_edges T') \<and> set (g_edges T) \<subseteq> set (g_edges T')
    \<and> set (g_nodes T) \<subseteq> set (g_nodes T')
    \<and> distinct (g_nodes T') = distinct (g_nodes T)
    \<and> leaves' = leaves @ map (path_vertex ''1'') paths
    \<and> (\<forall>g gs. g # gs \<in> set paths \<longrightarrow> (''1'', ''1'' @ ''.'' @ g, g) \<in> set (g_edges T'))"
  using assms
proof (induction paths arbitrary: T leaves)
  case Nil
  then show ?case by simp
next
  case (Cons p ps)
  obtain T1 v1 where p: "add_path T ''1'' p = (T1, v1)" by (cases "add_path T ''1'' p")
  with Cons.prems have r: "add_paths T1 (leaves @ [v1]) ps = (T', leaves')" by simp
  note i1 = add_path_inv [OF p Cons.prems(2)]
  from i1 have wf1: "edges_wf (g_edges T1)" by simp
  note i2 = Cons.IH [OF r wf1]
  from i1 i2 show ?case by (auto simp del: path_vertex.simps)
qed

lemma build_tree_inv:
  assumes "build_tree claims = (T, leaves)"
  shows "edges_wf (g_edges T)" "distinct (g_nodes T)" "''1'' \<in> set (g_nodes T)"
    "leaves = ''1'' # map (path_vertex ''1'') (paths_to_root claims)"
    "\<And>g gs. g # gs \<in> set (paths_to_root claims) \<Longrightarrow> (''1'', ''1'' @ ''.'' @ g, g) \<in> set (g_edges T)"
proof -
  have wf0: "edges_wf (g_edges (add_node empty_graph ''1''))"
    by (simp add: edges_wf_def empty_graph_def)
  note i = add_paths_inv [OF assms [unfolded build_tree_def] wf0]
  from i show "edges_wf (g_edges T)" by simp
  from i show "distinct (g_nodes T)" by (simp add: empty_graph_def)
  from i show "''1'' \<in> set (g_nodes T)" by auto
  from i show "leaves = ''1'' # map (path_vertex ''1'') (paths_to_root claims)" by simp
  from i show "\<And>g gs. g # gs \<in> set (paths_to_root claims) \<Longrightarrow> (''1'', ''1'' @ ''.'' @ g, g) \<in> set (g_edges T)"
    by blast
qed

lemma degree_loop_Some:
  "degree_loop T leaves vs n = Inr (Some m) \<Longrightarrow>
     m = n + length (filter (\<lambda>v. v \<in> set leaves) vs)
     \<and> (\<forall>v \<in> set vs. v \<in> set leaves \<longrightarrow> degree T v = 1)"
proof (induction vs arbitrary: n)
  case Nil
  then show ?case by simp
next
  case (Cons v vs)
  show ?case
  proof (cases "v \<in> set leaves")
    case True
    with Cons.prems have d: "degree T v = 1"
      and r: "degree_loop T leaves vs (n + 1) = Inr (Some m)"
      by (auto split: if_splits)
    from Cons.IH [OF r] d True show ?thesis by auto
  next
    case False
    with Cons.prems have r: "degree_loop T leaves vs n = Inr (Some m)"
      by (auto split: if_splits list.splits)
    from Cons.IH [OF r] False show ?thesis by auto
  qed
qed

lemma no_edge_into_root: "edges_wf es \<Longrightarrow> (u, ''1'', l) \<notin> set es"
proof
  assume wf: "edges_wf es" and "(u, ''1'', l) \<in> set es"
  then have "''1'' = u @ ''.'' @ l" by (auto simp: edges_wf_def)
  then have "length ''1'' = length (u @ ''.'' @ l)" "u = [] \<longrightarrow> hd ''1'' = hd (''.'' @ l)"
    by auto
  then show False by (cases u) auto
qed

lemma filter_count_le:
  assumes "distinct vs"
  shows "length (filter (\<lambda>v. v \<in> set leaves) vs) \<le> card (set leaves)"
proof -
  have "distinct (filter (\<lambda>v. v \<in> set leaves) vs)" using assms by simp
  from distinct_card [OF this]
  have "length (filter (\<lambda>v. v \<in> set leaves) vs) = card (set (filter (\<lambda>v. v \<in> set leaves) vs))"
    by simp
  also have "\<dots> \<le> card (set leaves)" by (intro card_mono) auto
  finally show ?thesis .
qed


lemma tree_ok_TrueD:
  assumes "tree_ok claims = Inr True"
  obtains T leaves where "build_tree claims = (T, leaves)" "is_branching T"
    "degree_loop T leaves (g_nodes T) 0 = Inr (Some (length leaves))"
proof -
  obtain T leaves where b: "build_tree claims = (T, leaves)" by (cases "build_tree claims")
  with assms have "is_branching T \<and> degree_loop T leaves (g_nodes T) 0 = Inr (Some (length leaves))"
    by (auto simp: tree_ok_def split: if_splits sum.splits option.splits)
  with b that show thesis by blast
qed

lemma tree_ok_accepts:
  assumes ok: "tree_ok claims = Inr True"
  shows "hd (snd (build_tree claims)) = ''1''"
    and "degree (fst (build_tree claims)) ''1'' = 1"
    and "claims \<noteq> []"
    and "\<exists>g. \<forall>c \<in> set claims. \<exists>gs. fst c = g # gs"
    and "length (out_edges (fst (build_tree claims)) ''1'') = 1"
proof -
  from ok obtain T leaves where b: "build_tree claims = (T, leaves)"
    and loop: "degree_loop T leaves (g_nodes T) 0 = Inr (Some (length leaves))"
    by (rule tree_ok_TrueD)
  note inv = build_tree_inv [OF b]
  let ?paths = "paths_to_root claims"
  from inv(4) have root_leaf: "''1'' \<in> set leaves" by simp
  from inv(4) b show "hd (snd (build_tree claims)) = ''1''" by simp
  from degree_loop_Some [OF loop]
  have cnt: "length leaves = length (filter (\<lambda>v. v \<in> set leaves) (g_nodes T))"
    and deg: "\<forall>v \<in> set (g_nodes T). v \<in> set leaves \<longrightarrow> degree T v = 1" by auto
  from deg inv(3) root_leaf have d1: "degree T ''1'' = 1" by blast
  with b show "degree (fst (build_tree claims)) ''1'' = 1" by simp
  have "in_edges T ''1'' = []"
    using no_edge_into_root [OF inv(1)] by (auto simp: in_edges_def filter_empty_conv)
  with d1 have o1: "length (out_edges T ''1'') = 1" by (simp add: degree_def)
  with b show "length (out_edges (fst (build_tree claims)) ''1'') = 1" by simp
  from o1 obtain e where e: "out_edges T ''1'' = [e]"
    by (cases "out_edges T ''1''") auto
  have first: "g = snd (snd e)" if "g # gs \<in> set ?paths" for g gs
  proof -
    from inv(5) [OF that] have "(''1'', ''1'' @ ''.'' @ g, g) \<in> set (out_edges T ''1'')"
      by (simp add: out_edges_def)
    with e show ?thesis by auto
  qed
  have "length leaves \<le> card (set leaves)"
    unfolding cnt [symmetric] using filter_count_le [OF inv(2), of leaves] cnt by simp
  with card_length [of leaves] have "card (set leaves) = length leaves" by simp
  then have "distinct leaves" by (rule card_distinct)
  with inv(4) have "''1'' \<notin> path_vertex ''1'' ` set ?paths" by simp
  then have nonempty: "p \<noteq> []" if "p \<in> set ?paths" for p
    using that by (cases p) force+
  have "fst c \<in> set ?paths" if "c \<in> set claims" for c
    using that by (simp add: paths_to_root_def)
  with nonempty first show "\<exists>g. \<forall>c \<in> set claims. \<exists>gs. fst c = g # gs"
    by (intro exI [of _ "snd (snd e)"]) (metis list.exhaust)
  show "claims \<noteq> []"
  proof
    assume "claims = []"
    with b have "g_edges T = []"
      by (auto simp add: build_tree_def paths_to_root_def empty_graph_def add_node_def)
    with e show False by (simp add: out_edges_def)
  qed
qed

subsection \<open>tree\_ok never raises\<close>

lemma targets_add_edge:
  "edges_wf (g_edges T) \<Longrightarrow>
     targets (add_edge T u (u @ ''.'' @ l) l) = insert (u @ ''.'' @ l) (targets T)"
  using g_edges_add_edge [of T u l] by (simp add: targets_def)

lemma add_path_nodes_wf:
  assumes "add_path T vert path = (T', vert')" "edges_wf (g_edges T)" "nodes_wf T"
    "vert \<in> insert ''1'' (targets T)"
  shows "nodes_wf T'"
  using assms
proof (induction path arbitrary: T vert)
  case Nil
  then show ?case by simp
next
  case (Cons g gs)
  let ?T1 = "add_edge T vert (vert @ ''.'' @ g) g"
  from Cons.prems have r: "add_path ?T1 (vert @ ''.'' @ g) gs = (T', vert')"
    by (simp add: Let_def)
  have wf1: "edges_wf (g_edges ?T1)" using Cons.prems(2) by (rule edges_wf_add_edge)
  have t1: "targets ?T1 = insert (vert @ ''.'' @ g) (targets T)"
    using Cons.prems(2) by (rule targets_add_edge)
  have n1: "nodes_wf ?T1"
    using Cons.prems(3,4) t1 by (auto simp: nodes_wf_def)
  have v1: "vert @ ''.'' @ g \<in> insert ''1'' (targets ?T1)" using t1 by simp
  from Cons.IH [OF r wf1 n1 v1] show ?case .
qed

lemma add_paths_nodes_wf:
  assumes "add_paths T leaves paths = (T', leaves')" "edges_wf (g_edges T)" "nodes_wf T"
  shows "nodes_wf T'"
  using assms
proof (induction paths arbitrary: T leaves)
  case Nil
  then show ?case by simp
next
  case (Cons p ps)
  obtain T1 v1 where p: "add_path T ''1'' p = (T1, v1)" by (cases "add_path T ''1'' p")
  with Cons.prems have r: "add_paths T1 (leaves @ [v1]) ps = (T', leaves')" by simp
  from add_path_inv [OF p Cons.prems(2)] have wf1: "edges_wf (g_edges T1)" by simp
  have n1: "nodes_wf T1" using p Cons.prems(2,3) by (rule add_path_nodes_wf) simp
  from Cons.IH [OF r wf1 n1] show ?case .
qed

lemma build_tree_nodes_wf:
  assumes "build_tree claims = (T, leaves)"
  shows "nodes_wf T"
proof -
  have e: "edges_wf (g_edges (add_node empty_graph ''1''))"
    by (simp add: edges_wf_def empty_graph_def)
  have n: "nodes_wf (add_node empty_graph ''1'')"
    by (simp add: nodes_wf_def empty_graph_def)
  from assms [unfolded build_tree_def] e n show ?thesis by (rule add_paths_nodes_wf)
qed

lemma degree_loop_no_error:
  assumes "\<forall>v \<in> set vs. v \<notin> set leaves \<and> degree T v = 3 \<longrightarrow> length (out_labels T v) = 2"
  shows "degree_loop T leaves vs n \<noteq> Inl e"
  using assms
proof (induction vs arbitrary: n)
  case Nil
  then show ?case by simp
next
  case (Cons v vs)
  from Cons.prems
  have rest: "\<forall>v \<in> set vs. v \<notin> set leaves \<and> degree T v = 3 \<longrightarrow> length (out_labels T v) = 2"
    by simp
  note ih = Cons.IH [OF rest]
  show ?case
  proof (cases "v \<in> set leaves")
    case True
    then have "degree_loop T leaves (v # vs) n =
        (if degree T v \<noteq> 1 then Inr None else degree_loop T leaves vs (n + 1))"
      by simp
    with ih [of "n + 1"] show ?thesis by (cases "degree T v = 1") simp_all
  next
    case False
    note nl = this
    show ?thesis
    proof (cases "degree T v = 3")
      case False
      with nl have "degree_loop T leaves (v # vs) n = Inr None" by simp
      then show ?thesis by simp
    next
      case True
      with nl Cons.prems have "length (out_labels T v) = 2" by simp
      then obtain w0 w1 where "out_labels T v = [w0, w1]"
        by (auto simp: length_Suc_conv numeral_2_eq_2)
      with True nl have "degree_loop T leaves (v # vs) n =
          (if invert_word w0 \<noteq> w1 then Inr None else degree_loop T leaves vs n)"
        by simp
      with ih [of n] show ?thesis by (cases "invert_word w0 = w1") simp_all
    qed
  qed
qed

lemma tree_ok_no_error: "tree_ok claims \<noteq> Inl e"
proof -
  obtain T leaves where b: "build_tree claims = (T, leaves)" by (cases "build_tree claims")
  note inv = build_tree_inv [OF b]
  have nw: "nodes_wf T" using b by (rule build_tree_nodes_wf)
  show ?thesis
  proof (cases "is_branching T")
    case False
    with b show ?thesis by (simp add: tree_ok_def)
  next
    case True
    have "length (out_labels T v) = 2"
      if v: "v \<in> set (g_nodes T)" and nl: "v \<notin> set leaves" and d: "degree T v = 3" for v
    proof -
      from inv(4) nl have "v \<noteq> ''1''" by auto
      with nw v have "v \<in> targets T" by (auto simp: nodes_wf_def)
      then have "in_edges T v \<noteq> []"
        by (auto simp: targets_def in_edges_def filter_empty_conv)
      then have "1 \<le> in_degree T v" by (cases "in_edges T v") (simp_all add: in_degree_def)
      moreover from True v have "in_degree T v \<le> 1"
        by (simp add: is_branching_def list_all_iff)
      ultimately have "in_degree T v = 1" by simp
      with d show ?thesis by (simp add: degree_def in_degree_def out_labels_def)
    qed
    then have "degree_loop T leaves (g_nodes T) 0 \<noteq> Inl e" for e
      by (intro degree_loop_no_error) blast
    with b show ?thesis
      by (auto simp: tree_ok_def split: sum.splits option.splits)
  qed
qed

lemma tree_ok_distinct_paths:
  assumes ok: "tree_ok claims = Inr True"
  shows "distinct (paths_to_root claims)"
proof -
  from ok obtain T leaves where b: "build_tree claims = (T, leaves)"
    and loop: "degree_loop T leaves (g_nodes T) 0 = Inr (Some (length leaves))"
    by (rule tree_ok_TrueD)
  note inv = build_tree_inv [OF b]
  from degree_loop_Some [OF loop]
  have cnt: "length leaves = length (filter (\<lambda>v. v \<in> set leaves) (g_nodes T))" by auto
  have "length leaves \<le> card (set leaves)"
    using filter_count_le [OF inv(2), of leaves] cnt by simp
  with card_length [of leaves] have "card (set leaves) = length leaves" by simp
  then have "distinct leaves" by (rule card_distinct)
  with inv(4) have "distinct (map (path_vertex ''1'') (paths_to_root claims))" by simp
  then show ?thesis by (simp add: distinct_map)
qed

subsection \<open>Evaluation on concrete claim lists\<close>

lemmas tree_eval = tree_ok_def build_tree_def paths_to_root_def add_node_def empty_graph_def
    add_edge_def is_branching_def is_forest_def weakly_connected_components_def edges_within_def
    in_degree_def in_edges_def degree_def out_edges_def out_labels_def prefix_check_def
    single_source_shortest_path_def successors_def path_of_def Let_def

lemma sample1_tree_ok:
  "tree_ok [([''a'', ''b''], []), ([''a'', ''B'', ''c''], []), ([''a'', ''B'', ''C''], [])] = Inr True"
  by code_simp

text \<open>
  C4 (as the code has it). For the single claim with path \<open>["a"]\<close>, the root \<open>'1'\<close> is in the
  list \<open>leaves\<close>, it has total degree 1 as a leaf must, and \<open>tree_ok\<close> returns \<open>True\<close>,
  whatever the asserted word of the claim is.
\<close>

theorem tree_ok_single_path_accepted:
  "''1'' \<in> set (snd (build_tree [([''a''], w)]))
   \<and> degree (fst (build_tree [([''a''], w)])) ''1'' = 1
   \<and> tree_ok [([''a''], w)] = Inr True"
  by (simp add: tree_eval)

text \<open>
  C4 as stated (the single path \<open>["a"]\<close> is rejected) fails: the call returns \<open>True\<close>.
\<close>

theorem tree_ok_single_path_counterexample:
  "tree_ok [([''a''], [''a''])] = Inr True \<and> tree_ok [([''a''], [''a''])] \<noteq> Inr False"
  by (simp add: tree_eval)

text \<open>
  C5. The list \<open>leaves\<close> starts with the root \<open>'1'\<close>. When \<open>tree_ok\<close> returns \<open>True\<close>, the
  root has total degree 1 and one outgoing edge, there is at least one claim, and all
  paths are non-empty and
  start with the same edge label. The two claims with paths \<open>["a"]\<close> and \<open>["A"]\<close> give the
  root the degree 2 and are rejected.
\<close>

theorem tree_ok_root_is_leaf:
  "hd (snd (build_tree claims)) = ''1''
   \<and> (tree_ok claims = Inr True \<longrightarrow>
        degree (fst (build_tree claims)) ''1'' = 1
        \<and> length (out_edges (fst (build_tree claims)) ''1'') = 1 \<and> claims \<noteq> []
        \<and> (\<exists>g. \<forall>c \<in> set claims. \<exists>gs. fst c = g # gs))
   \<and> degree (fst (build_tree [([''a''], w), ([''A''], w')])) ''1'' = 2
   \<and> tree_ok [([''a''], w), ([''A''], w')] = Inr False"
proof -
  obtain T leaves where b: "build_tree claims = (T, leaves)" by (cases "build_tree claims")
  from build_tree_inv(4) [OF b] b have "hd (snd (build_tree claims)) = ''1''" by simp
  moreover have "tree_ok [([''a''], w), ([''A''], w')] = Inr False"
    by (simp add: tree_eval)
  moreover have "degree (fst (build_tree [([''a''], w), ([''A''], w')])) ''1'' = 2"
    by (simp add: tree_eval)
  ultimately show ?thesis
    using tree_ok_accepts(2,3,4,5) [of claims] by blast
qed

theorem tree_ok_root_is_leaf_witness:
  "tree_ok [([''a'', ''b''], []), ([''a'', ''B'', ''c''], []), ([''a'', ''B'', ''C''], [])] = Inr True
   \<and> degree (fst (build_tree
         [([''a'', ''b''], []), ([''a'', ''B'', ''c''], []), ([''a'', ''B'', ''C''], [])])) ''1'' = 1"
  using sample1_tree_ok
    tree_ok_root_is_leaf [of "[([''a'', ''b''], []), ([''a'', ''B'', ''c''], []), ([''a'', ''B'', ''C''], [])]"]
  by blast

text \<open>
  C7. Two claims with the same path \<open>["a"]\<close> are rejected: the tree is a branching and the
  degrees are right, but the loop counts 2 leaves among the vertices while \<open>leaves\<close> has 3
  entries. In general a claim list in which a path occurs twice is rejected.
\<close>

theorem tree_ok_duplicate_paths:
  "tree_ok [([''a''], w), ([''a''], w')] = Inr False
   \<and> (case build_tree [([''a''], w), ([''a''], w')] of
        (T, leaves) \<Rightarrow> is_branching T
          \<and> degree_loop T leaves (g_nodes T) 0 = Inr (Some 2) \<and> length leaves = 3)
   \<and> (\<not> distinct (paths_to_root claims) \<longrightarrow> tree_ok claims = Inr False)"
proof -
  have 1: "tree_ok [([''a''], w), ([''a''], w')] = Inr False"
    by (simp add: tree_eval)
  have 2: "case build_tree [([''a''], w), ([''a''], w')] of
        (T, leaves) \<Rightarrow> is_branching T
          \<and> degree_loop T leaves (g_nodes T) 0 = Inr (Some 2) \<and> length leaves = 3"
    by (simp add: tree_eval)
  have 3: "tree_ok claims = Inr False" if "\<not> distinct (paths_to_root claims)"
  proof (cases "tree_ok claims")
    case (Inl e)
    with tree_ok_no_error [of claims e] show ?thesis by simp
  next
    case (Inr r)
    with that tree_ok_distinct_paths [of claims] show ?thesis by (cases r) auto
  qed
  from 1 2 3 show ?thesis by blast
qed

theorem tree_ok_duplicate_paths_witness:
  "\<not> distinct (paths_to_root [([''a''], []), ([''a''], [])])
   \<and> tree_ok [([''a''], []), ([''a''], [])] = Inr False"
proof -
  have h: "\<not> distinct (paths_to_root [([''a''], []), ([''a''], [])])"
    by (simp add: paths_to_root_def)
  with tree_ok_duplicate_paths [of "[]" "[]" "[([''a''], []), ([''a''], [])]"]
  show ?thesis by blast
qed

section \<open>Evaluating the exact provider on matrices with real entries\<close>

lemma sqrt_max: "sqrt (max a b) = max (sqrt a) (sqrt b)"
  by (cases "a \<le> b") (simp_all add: max_def)

lemma ci_abs_real:
  assumes "lo \<le> hi"
  shows "ci_abs ((lo, hi), (0, 0)) = iv_abs (lo, hi)"
proof -
  consider "0 \<le> lo" | "lo < 0" "hi \<le> 0" | "lo < 0" "0 < hi" by linarith
  then show ?thesis
  proof cases
    case 1
    with assms have "0 \<le> hi" by simp
    with 1 show ?thesis by (simp add: ci_abs_def iv_sqrt_def iv_sqr_def iv_add_def iv_abs_def)
  next
    case 2
    then show ?thesis by (simp add: ci_abs_def iv_sqrt_def iv_sqr_def iv_add_def iv_abs_def)
  next
    case 3
    have m: "sqrt (max (lo * lo) (hi * hi)) = max (- lo) hi"
    proof -
      have "sqrt (max (lo * lo) (hi * hi)) = max (sqrt (lo * lo)) (sqrt (hi * hi))"
        by (rule sqrt_max)
      with 3 show ?thesis by simp
    qed
    with 3 show ?thesis by (simp add: ci_abs_def iv_sqrt_def iv_sqr_def iv_add_def iv_abs_def)
  qed
qed

lemma iv_mul_zero [simp]: "iv_mul (0, 0) y = (0, 0)" "iv_mul x (0, 0) = (0, 0)"
  by (simp_all add: iv_mul_def)

lemma iv_add_zero [simp]: "iv_add (0, 0) y = y" "iv_add x (0, 0) = x"
  by (simp_all add: iv_add_def)

lemma iv_neg_zero [simp]: "iv_neg (0, 0) = (0, 0)"
  by (simp add: iv_neg_def)

lemma ci_mul_real: "ci_mul (x, (0, 0)) (y, (0, 0)) = (iv_mul x y, (0, 0))"
  by (simp add: ci_mul_def iv_sub_def)

lemma ci_add_real: "ci_add (x, (0, 0)) (y, (0, 0)) = (iv_add x y, (0, 0))"
  by (simp add: ci_add_def)

lemma cm_mul_real:
  "cm_mul (real_mat a b c d) (real_mat e f g h) =
     real_mat (iv_add (iv_mul a e) (iv_mul b g)) (iv_add (iv_mul a f) (iv_mul b h))
              (iv_add (iv_mul c e) (iv_mul d g)) (iv_add (iv_mul c f) (iv_mul d h))"
  by (simp add: cm_mul_def real_mat_def ci_mul_real ci_add_real)

lemma cm_inverse_real: "cm_inverse (real_mat a b c d) = real_mat d (iv_neg b) (iv_neg c) a"
  by (simp add: cm_inverse_def real_mat_def ci_neg_def)

lemma cm_trace_real: "cm_trace (real_mat a b c d) = (iv_add a d, (0, 0))"
  by (simp add: cm_trace_def real_mat_def ci_add_def)

lemma cm_contains_one_real:
  "cm_contains_one (real_mat a b c d) =
     (iv_contains_zero (iv_sub a (1, 1)) \<and> iv_contains_zero b
      \<and> iv_contains_zero c \<and> iv_contains_zero (iv_sub d (1, 1)))"
  by (simp add: cm_contains_one_def real_mat_def ci_contains_zero_def ci_sub_int_def
      iv_contains_zero_def iv_of_int_def)

lemma ci_sub_int_real: "ci_sub_int (x, (0, 0)) n = (iv_sub x (of_int n, of_int n), (0, 0))"
  by (simp add: ci_sub_int_def iv_of_int_def)

lemmas real_eval = cm_mul_real cm_inverse_real cm_trace_real cm_contains_one_real
  ci_sub_int_real ci_mul_real ci_abs_real
  iv_add_def iv_neg_def iv_sub_def iv_mul_def iv_abs_def iv_lt_def iv_contains_zero_def
  iv_of_int_def

lemmas jif_eval = jorgensens_inequality_fails_def exact_ops_def py_min_def Let_def

subsection \<open>The toy representation\<close>

lemma word_abAB: "word_mat ''abAB'' = real_mat (3, 3) (- 1, - 1) (1, 1) (0, 0)"
  by (simp add: letter_mat_def mat_a_def mat_b_def real_eval)

lemma upper_ab: "upper ''ab'' = ''AB''"
  by code_simp

lemma is_manifold_unfilled: "is_manifold [(0, 0)] = True"
  by (simp add: ZZ_def)

lemma not_one_abAB: "\<not> cm_contains_one (word_mat ''abAB'')"
  unfolding word_abAB
  by (simp add: cm_contains_one_real iv_sub_def iv_add_def iv_neg_def iv_contains_zero_def)

lemma toy_find: "find_noncommuting_gens exact_ops toy_rho = Inr ((''a'', ''b''), (mat_a, mat_b))"
proof -
  obtain ps where p: "pairs (generators toy_rho) = (''a'', ''b'') # ps"
    by (simp add: toy_rho_def)
  have w: "rho_eval toy_rho (''a'' @ ''b'' @ upper (''a'' @ ''b'')) = word_mat ''abAB''"
    using upper_ab by (simp add: toy_rho_def del: word_mat.simps)
  have c: "contains_one exact_ops = cm_contains_one" by (simp add: exact_ops_def)
  have m: "rho_eval toy_rho ''a'' = mat_a" "rho_eval toy_rho ''b'' = mat_b"
    by (simp_all add: toy_rho_def letter_mat_def)
  have "find_noncommuting exact_ops toy_rho ((''a'', ''b'') # ps)
      = Inr ((''a'', ''b''), (mat_a, mat_b))"
    unfolding find_noncommuting.simps w c m using not_one_abAB by simp
  with p show ?thesis by (simp add: find_noncommuting_gens_def)
qed

lemma toy_solver_built: "WordProblemSolver exact_ops toy_manifold bits args = Inr toy_solver"
  using toy_find is_manifold_unfilled
  by (simp add: WordProblemSolver_def toy_manifold_def toy_solver_def)

lemma jif_c_a: "jorgensens_inequality_fails exact_ops mat_c mat_a = Inr False"
  by (simp add: jif_eval mat_c_def mat_a_def real_eval)

lemma jif_a_c: "jorgensens_inequality_fails exact_ops mat_a mat_c = Inr True"
  by (simp add: jif_eval mat_c_def mat_a_def real_eval)

lemma jif_c_b: "jorgensens_inequality_fails exact_ops mat_c mat_b = Inr False"
  by (simp add: jif_eval mat_c_def mat_b_def real_eval)

lemma jif_b_c: "jorgensens_inequality_fails exact_ops mat_b mat_c = Inr True"
  by (simp add: jif_eval mat_c_def mat_b_def real_eval)

lemma jif_d_a: "jorgensens_inequality_fails exact_ops mat_d mat_a = Inr True"
  by (simp add: jif_eval mat_d_def mat_a_def real_eval)

lemma jif_d_b: "jorgensens_inequality_fails exact_ops mat_d mat_b = Inr True"
  by (simp add: jif_eval mat_d_def mat_b_def real_eval)

lemma word_eeee: "word_mat ''eeee'' = mat_id"
  by (simp add: letter_mat_def mat_e_def mat_id_def real_eval)

lemma jif_id_a: "jorgensens_inequality_fails exact_ops mat_id mat_a = Inr True"
  by (simp add: jif_eval mat_id_def mat_a_def real_eval)

lemma jif_id_b: "jorgensens_inequality_fails exact_ops mat_id mat_b = Inr True"
  by (simp add: jif_eval mat_id_def mat_b_def real_eval)

section \<open>The exact provider encloses the arithmetic of matrices\<close>

lemma iv_add_mem: "iv_mem s x \<Longrightarrow> iv_mem t y \<Longrightarrow> iv_mem (s + t) (iv_add x y)"
  by (simp add: iv_mem_def iv_add_def)

lemma iv_neg_mem: "iv_mem s x \<Longrightarrow> iv_mem (- s) (iv_neg x)"
  by (simp add: iv_mem_def iv_neg_def)

lemma iv_sub_mem: "iv_mem s x \<Longrightarrow> iv_mem t y \<Longrightarrow> iv_mem (s - t) (iv_sub x y)"
  using iv_add_mem [OF _ iv_neg_mem, of s x t y] by (simp add: iv_sub_def)

lemma scale_between:
  fixes k :: real
  assumes "c \<le> y" "y \<le> d"
  shows "min (k * c) (k * d) \<le> k * y \<and> k * y \<le> max (k * c) (k * d)"
proof (cases "0 \<le> k")
  case True
  with assms have "k * c \<le> k * y" "k * y \<le> k * d" by (simp_all add: mult_left_mono)
  then show ?thesis by simp
next
  case False
  with assms have "k * d \<le> k * y" "k * y \<le> k * c" by (simp_all add: mult_left_mono_neg)
  then show ?thesis by simp
qed

lemma iv_mul_mem:
  assumes "iv_mem s x" "iv_mem t y"
  shows "iv_mem (s * t) (iv_mul x y)"
proof -
  obtain a b c d where x: "x = (a, b)" and y: "y = (c, d)" by (cases x, cases y)
  from assms x y have s: "a \<le> s" "s \<le> b" and t: "c \<le> t" "t \<le> d"
    by (simp_all add: iv_mem_def)
  from scale_between [OF s, of t]
  have 1: "min (a * t) (b * t) \<le> s * t" "s * t \<le> max (a * t) (b * t)"
    by (simp_all add: mult.commute)
  from scale_between [OF t, of a]
  have 2: "min (a * c) (a * d) \<le> a * t" "a * t \<le> max (a * c) (a * d)" by simp_all
  from scale_between [OF t, of b]
  have 3: "min (b * c) (b * d) \<le> b * t" "b * t \<le> max (b * c) (b * d)" by simp_all
  from 1 2 3 have "min (min (a * c) (a * d)) (min (b * c) (b * d)) \<le> s * t"
    "s * t \<le> max (max (a * c) (a * d)) (max (b * c) (b * d))"
    by linarith+
  then show ?thesis by (simp add: iv_mem_def iv_mul_def x y)
qed

lemma ci_add_mem: "ci_mem z p \<Longrightarrow> ci_mem w q \<Longrightarrow> ci_mem (z + w) (ci_add p q)"
  by (simp add: ci_mem_def ci_add_def iv_add_mem)

lemma ci_neg_mem: "ci_mem z p \<Longrightarrow> ci_mem (- z) (ci_neg p)"
  by (simp add: ci_mem_def ci_neg_def iv_neg_mem)

lemma ci_mul_mem: "ci_mem z p \<Longrightarrow> ci_mem w q \<Longrightarrow> ci_mem (z * w) (ci_mul p q)"
  by (simp add: ci_mem_def ci_mul_def iv_add_mem iv_sub_mem iv_mul_mem)

lemma ci_one_mem: "ci_mem 1 p \<Longrightarrow> ci_contains_zero (ci_sub_int p 1)"
  by (simp add: ci_mem_def ci_contains_zero_def ci_sub_int_def iv_contains_zero_def iv_sub_def
      iv_add_def iv_neg_def iv_of_int_def iv_mem_def)

lemma ci_zero_mem: "ci_mem 0 p \<Longrightarrow> ci_contains_zero p"
  by (simp add: ci_mem_def ci_contains_zero_def iv_contains_zero_def iv_mem_def)

text \<open>
  An interval matrix that contains a complex matrix of determinant 1 passes the
  assertion of \<open>jorgensens_inequality_fails\<close> in exact interval arithmetic.
\<close>

lemma exact_inverse_certified:
  assumes mem: "cm_mem (a, b, c, d) P" and det: "a * d - b * c = 1"
  shows "inverse_certified exact_ops P"
proof -
  obtain pa pb pc pd where P: "P = (pa, pb, pc, pd)" by (cases P) auto
  from mem P have m: "ci_mem a pa" "ci_mem b pb" "ci_mem c pc" "ci_mem d pd"
    by (simp_all add: cm_mem_def)
  have e00: "ci_mem (a * d + b * (- c)) (ci_add (ci_mul pa pd) (ci_mul pb (ci_neg pc)))"
    by (intro ci_add_mem ci_mul_mem ci_neg_mem m)
  have e01: "ci_mem (a * (- b) + b * a) (ci_add (ci_mul pa (ci_neg pb)) (ci_mul pb pa))"
    by (intro ci_add_mem ci_mul_mem ci_neg_mem m)
  have e10: "ci_mem (c * d + d * (- c)) (ci_add (ci_mul pc pd) (ci_mul pd (ci_neg pc)))"
    by (intro ci_add_mem ci_mul_mem ci_neg_mem m)
  have e11: "ci_mem (c * (- b) + d * a) (ci_add (ci_mul pc (ci_neg pb)) (ci_mul pd pa))"
    by (intro ci_add_mem ci_mul_mem ci_neg_mem m)
  from det have v: "a * d + b * (- c) = 1" "a * (- b) + b * a = 0" "c * d + d * (- c) = 0"
    "c * (- b) + d * a = 1"
    by (simp_all add: algebra_simps)
  from e00 e01 e10 e11 show ?thesis
    unfolding v
    by (simp add: inverse_certified_def exact_ops_def P cm_mul_def cm_inverse_def
        cm_contains_one_def ci_one_mem ci_zero_mem)
qed

lemma cm_mul_mem: "cm_mem M P \<Longrightarrow> cm_mem N Q \<Longrightarrow> cm_mem (pm_mul M N) (cm_mul P Q)"
  by (cases M, cases N, cases P, cases Q)
     (simp add: cm_mem_def pm_mul_def cm_mul_def ci_add_mem ci_mul_mem)

lemma cm_inverse_mem: "cm_mem M P \<Longrightarrow> cm_mem (pm_adj M) (cm_inverse P)"
  by (cases M, cases P) (simp add: cm_mem_def pm_adj_def cm_inverse_def ci_neg_mem)

lemma cm_trace_mem: "cm_mem M P \<Longrightarrow> ci_mem (pm_trace M) (cm_trace P)"
  by (cases M, cases P) (simp add: cm_mem_def pm_trace_def cm_trace_def ci_add_mem)

lemma ci_sub_int_mem: "ci_mem z p \<Longrightarrow> ci_mem (z - of_int n) (ci_sub_int p n)"
  by (simp add: ci_mem_def ci_sub_int_def iv_sub_def iv_add_def iv_neg_def iv_of_int_def iv_mem_def)

lemma iv_sqr_upper: "iv_mem t x \<Longrightarrow> t * t \<le> snd (iv_sqr x)"
proof -
  assume m: "iv_mem t x"
  obtain a b where x: "x = (a, b)" by (cases x)
  from m x have t: "a \<le> t" "t \<le> b" by (simp_all add: iv_mem_def)
  consider "0 \<le> a" | "a < 0" "b \<le> 0" | "a < 0" "0 < b" by linarith
  then show ?thesis
  proof cases
    case 1
    with t have "t * t \<le> b * b" by (intro mult_mono) simp_all
    with 1 x show ?thesis by (simp add: iv_sqr_def)
  next
    case 2
    with t have "(- t) * (- t) \<le> (- a) * (- a)" by (intro mult_mono) simp_all
    with 2 x show ?thesis by (simp add: iv_sqr_def)
  next
    case 3
    have "t * t \<le> max (a * a) (b * b)"
    proof (cases "0 \<le> t")
      case True
      with t have "t * t \<le> b * b" by (intro mult_mono) simp_all
      then show ?thesis by simp
    next
      case False
      with t have "(- t) * (- t) \<le> (- a) * (- a)" by (intro mult_mono) simp_all
      then show ?thesis by simp
    qed
    with 3 x show ?thesis by (simp add: iv_sqr_def)
  qed
qed

lemma ci_abs_upper:
  assumes "ci_mem z p"
  shows "cmod z \<le> snd (ci_abs p)"
proof -
  from assms have "Re z * Re z \<le> snd (iv_sqr (fst p))" "Im z * Im z \<le> snd (iv_sqr (snd p))"
    by (simp_all add: ci_mem_def iv_sqr_upper)
  then have "(Re z)\<^sup>2 + (Im z)\<^sup>2 \<le> snd (iv_sqr (fst p)) + snd (iv_sqr (snd p))"
    by (simp add: power2_eq_square)
  then have "sqrt ((Re z)\<^sup>2 + (Im z)\<^sup>2) \<le> sqrt (snd (iv_sqr (fst p)) + snd (iv_sqr (snd p)))"
    by simp
  then show ?thesis by (simp add: cmod_def ci_abs_def iv_sqrt_def iv_add_def)
qed

text \<open>
  The certified test is sound in exact interval arithmetic: when it returns \<open>True\<close>, the
  inequality \<open>mu < 1\<close> holds for all matrices that the two interval matrices contain.
\<close>

lemma jorgensens_inequality_fails_sound:
  assumes P: "cm_mem M P" and Q: "cm_mem N Q"
    and j: "jorgensens_inequality_fails exact_ops P Q = Inr True"
  shows "jorgensen_value M N < 1"
proof -
  let ?a = "ci_abs (ci_sub_int (ci_mul (cm_trace P) (cm_trace P)) 4)"
  let ?b = "ci_abs (ci_sub_int (ci_mul (cm_trace Q) (cm_trace Q)) 4)"
  let ?c = "ci_abs (ci_sub_int
      (cm_trace (cm_mul (cm_mul (cm_mul P Q) (cm_inverse P)) (cm_inverse Q))) 2)"
  let ?m = "if iv_lt ?b ?a then ?b else ?a"
  from j have lt: "snd ?m + snd ?c < 1"
    by (simp add: jorgensens_inequality_fails_def exact_ops_def py_min_def Let_def iv_lt_def
        iv_add_def iv_of_int_def split: if_splits)
  have "ci_mem ((pm_trace M)\<^sup>2 - of_int 4) (ci_sub_int (ci_mul (cm_trace P) (cm_trace P)) 4)"
    unfolding power2_eq_square by (intro ci_sub_int_mem ci_mul_mem cm_trace_mem P)
  then have a: "cmod ((pm_trace M)\<^sup>2 - 4) \<le> snd ?a" using ci_abs_upper by fastforce
  have "ci_mem ((pm_trace N)\<^sup>2 - of_int 4) (ci_sub_int (ci_mul (cm_trace Q) (cm_trace Q)) 4)"
    unfolding power2_eq_square by (intro ci_sub_int_mem ci_mul_mem cm_trace_mem Q)
  then have b: "cmod ((pm_trace N)\<^sup>2 - 4) \<le> snd ?b" using ci_abs_upper by fastforce
  have "ci_mem (pm_trace (pm_mul (pm_mul (pm_mul M N) (pm_adj M)) (pm_adj N)) - of_int 2)
      (ci_sub_int (cm_trace (cm_mul (cm_mul (cm_mul P Q) (cm_inverse P)) (cm_inverse Q))) 2)"
    by (intro ci_sub_int_mem cm_trace_mem cm_mul_mem cm_inverse_mem P Q)
  then have c: "cmod (pm_trace (pm_mul (pm_mul (pm_mul M N) (pm_adj M)) (pm_adj N)) - 2) \<le> snd ?c"
    using ci_abs_upper by fastforce
  from a b have "min (cmod ((pm_trace M)\<^sup>2 - 4)) (cmod ((pm_trace N)\<^sup>2 - 4)) \<le> snd ?m"
    by (simp add: min_le_iff_disj)
  with c lt show ?thesis by (simp add: jorgensen_value_def)
qed

section \<open>Properties of the solver\<close>

lemma jif_certified:
  assumes "inverse_certified ops P" "inverse_certified ops Q"
  shows "jorgensens_inequality_fails ops P Q = Inr (r_lt_int ops (code_mu ops P Q) 1)"
  using assms
  by (simp add: jorgensens_inequality_fails_def inverse_certified_def code_mu_def Let_def)

lemma jif_uncertified:
  assumes "\<not> (inverse_certified ops P \<and> inverse_certified ops Q)"
  shows "jorgensens_inequality_fails ops P Q = Inl AssertionError"
  using assms
  by (auto simp add: jorgensens_inequality_fails_def inverse_certified_def Let_def)

lemma certified_a: "inverse_certified exact_ops mat_a"
  by (simp add: inverse_certified_def exact_ops_def mat_a_def real_eval)

lemma certified_b: "inverse_certified exact_ops mat_b"
  by (simp add: inverse_certified_def exact_ops_def mat_b_def real_eval)

lemma certified_c: "inverse_certified exact_ops mat_c"
  by (simp add: inverse_certified_def exact_ops_def mat_c_def real_eval)

lemma certified_d: "inverse_certified exact_ops mat_d"
  by (simp add: inverse_certified_def exact_ops_def mat_d_def real_eval)

lemma certified_id: "inverse_certified exact_ops mat_id"
  by (simp add: inverse_certified_def exact_ops_def mat_id_def real_eval)

lemma one_c: "cm_contains_one mat_c"
  by (simp add: mat_c_def real_eval)

lemma one_d: "cm_contains_one mat_d"
  by (simp add: mat_d_def real_eval)

lemma one_id: "cm_contains_one mat_id"
  by (simp add: mat_id_def real_eval)

lemma not_one_a: "\<not> cm_contains_one mat_a"
  by (simp add: mat_a_def real_eval)

lemma not_one_e: "\<not> cm_contains_one mat_e"
  by (simp add: mat_e_def real_eval)

lemma toy_eval_words:
  "rho_eval (rho toy_solver) ''a'' = mat_a" "rho_eval (rho toy_solver) ''c'' = mat_c"
  "rho_eval (rho toy_solver) ''d'' = mat_d" "rho_eval (rho toy_solver) ''e'' = mat_e"
  by (simp_all add: toy_solver_def toy_rho_def letter_mat_def)

lemma toy_eval_eeee: "rho_eval (rho toy_solver) ''eeee'' = mat_id"
  using word_eeee by (simp add: toy_solver_def toy_rho_def del: word_mat.simps)

lemma toy_eval_anchors:
  "noncommmuting_mats toy_solver = (mat_a, mat_b)"
  "contains_one exact_ops = cm_contains_one"
  by (simp_all add: toy_solver_def exact_ops_def)

lemmas toy_eval_letter = toy_eval_words toy_eval_eeee toy_eval_anchors

lemma toy_nontrivial_a: "is_nontrivial exact_ops toy_solver ''a'' = Inr True"
  unfolding is_nontrivial_def Let_def toy_eval_letter using not_one_a by simp

lemma toy_nontrivial_e: "is_nontrivial exact_ops toy_solver ''e'' = Inr True"
  unfolding is_nontrivial_def Let_def toy_eval_letter using not_one_e by simp

lemma toy_nontrivial_c: "is_nontrivial exact_ops toy_solver ''c'' = Inl PrecisionInsufficient"
  unfolding is_nontrivial_def Let_def toy_eval_letter using one_c jif_c_a by simp

lemma toy_nontrivial_d: "is_nontrivial exact_ops toy_solver ''d'' = Inr False"
  unfolding is_nontrivial_def Let_def toy_eval_letter using one_d jif_d_a jif_d_b by simp

lemma toy_nontrivial_eeee: "is_nontrivial exact_ops toy_solver ''eeee'' = Inr False"
  unfolding is_nontrivial_def Let_def toy_eval_letter using one_id jif_id_a jif_id_b by simp

lemma toy_both_directions_c:
  "is_nontrivial_both_directions exact_ops toy_solver ''c'' = Inr False"
  unfolding is_nontrivial_both_directions_def Let_def toy_eval_letter
  using one_c jif_c_a jif_a_c jif_c_b jif_b_c by simp

text \<open>
  The control flow of \<open>is_nontrivial\<close> for matrices that pass the assertion of
  \<open>jorgensens_inequality_fails\<close>: its result is decided by \<open>contains_one(X)\<close> and by the two
  calls for \<open>(X, A)\<close> and \<open>(X, B)\<close>.
\<close>

lemma is_nontrivial_outcomes:
  assumes "inverse_certified ops (rho_eval (rho s) w)"
    and "inverse_certified ops (fst (noncommmuting_mats s))"
    and "inverse_certified ops (snd (noncommmuting_mats s))"
  shows "is_nontrivial ops s w =
           (if \<not> contains_one ops (rho_eval (rho s) w) then Inr True
            else if jorgensens_inequality_fails ops (rho_eval (rho s) w)
                      (fst (noncommmuting_mats s)) = Inr True
                  \<and> jorgensens_inequality_fails ops (rho_eval (rho s) w)
                      (snd (noncommmuting_mats s)) = Inr True
                 then Inr False
                 else Inl PrecisionInsufficient)
         \<and> is_nontrivial ops s w \<in> {Inr True, Inr False, Inl PrecisionInsufficient}
         \<and> is_trivial ops s w =
             (case is_nontrivial ops s w of Inl e \<Rightarrow> Inl e | Inr b \<Rightarrow> Inr (\<not> b))"
proof -
  obtain A B where m: "noncommmuting_mats s = (A, B)" by (cases "noncommmuting_mats s")
  let ?X = "rho_eval (rho s) w"
  from assms m have a: "jorgensens_inequality_fails ops ?X A = Inr (r_lt_int ops (code_mu ops ?X A) 1)"
    by (intro jif_certified) simp_all
  from assms m have b: "jorgensens_inequality_fails ops ?X B = Inr (r_lt_int ops (code_mu ops ?X B) 1)"
    by (intro jif_certified) simp_all
  have 1: "is_nontrivial ops s w =
           (if \<not> contains_one ops ?X then Inr True
            else if jorgensens_inequality_fails ops ?X (fst (noncommmuting_mats s)) = Inr True
                  \<and> jorgensens_inequality_fails ops ?X (snd (noncommmuting_mats s)) = Inr True
                 then Inr False
                 else Inl PrecisionInsufficient)"
    by (simp add: is_nontrivial_def Let_def m a b split: bool.splits)
  then have 2: "is_nontrivial ops s w \<in> {Inr True, Inr False, Inl PrecisionInsufficient}"
    by (simp split: if_splits)
  have 3: "is_trivial ops s w =
             (case is_nontrivial ops s w of Inl e \<Rightarrow> Inl e | Inr b \<Rightarrow> Inr (\<not> b))"
    by (simp add: is_trivial_def)
  from 1 2 3 show ?thesis by blast
qed

lemma exact_lt_int_every_value:
  assumes "fst x \<le> snd x"
  shows "r_lt_int exact_ops x n = (\<forall>t. fst x \<le> t \<and> t \<le> snd x \<longrightarrow> t < of_int n)"
  using assms by (auto simp: exact_ops_def iv_lt_def iv_of_int_def)

lemma is_nontrivial_False_iff:
  "(is_nontrivial ops s w = Inr False) =
     (contains_one ops (rho_eval (rho s) w)
      \<and> jorgensens_inequality_fails ops (rho_eval (rho s) w) (fst (noncommmuting_mats s)) = Inr True
      \<and> jorgensens_inequality_fails ops (rho_eval (rho s) w) (snd (noncommmuting_mats s)) = Inr True)"
proof -
  obtain A B where m: "noncommmuting_mats s = (A, B)" by (cases "noncommmuting_mats s")
  show ?thesis
    by (auto simp: is_nontrivial_def Let_def m split: sum.splits bool.splits)
qed

subsection \<open>The minimum of the source against the minimum of intervals\<close>

lemma iv_min_mem: "iv_mem s x \<Longrightarrow> iv_mem t y \<Longrightarrow> iv_mem (min s t) (iv_min x y)"
  by (auto simp: iv_mem_def iv_min_def min_def)

text \<open>
  With the minimum of intervals, the comparison with 1 says that the inequality holds
  for every choice of values in the three intervals.
\<close>

lemma iv_min_every_value:
  assumes "fst a \<le> snd a" "fst b \<le> snd b" "fst c \<le> snd c"
  shows "iv_lt (iv_add (iv_min a b) c) (iv_of_int 1) =
     (\<forall>s t u. iv_mem s a \<and> iv_mem t b \<and> iv_mem u c \<longrightarrow> min s t + u < 1)"
proof
  assume lt: "iv_lt (iv_add (iv_min a b) c) (iv_of_int 1)"
  show "\<forall>s t u. iv_mem s a \<and> iv_mem t b \<and> iv_mem u c \<longrightarrow> min s t + u < 1"
  proof (intro allI impI)
    fix s t u
    assume m: "iv_mem s a \<and> iv_mem t b \<and> iv_mem u c"
    then have le: "min s t \<le> min (snd a) (snd b)" "u \<le> snd c"
      by (auto simp: iv_mem_def)
    from lt have "min (snd a) (snd b) + snd c < 1"
      by (simp add: iv_lt_def iv_add_def iv_min_def iv_of_int_def)
    with le show "min s t + u < 1" by linarith
  qed
next
  assume all: "\<forall>s t u. iv_mem s a \<and> iv_mem t b \<and> iv_mem u c \<longrightarrow> min s t + u < 1"
  from assms have "iv_mem (snd a) a \<and> iv_mem (snd b) b \<and> iv_mem (snd c) c"
    by (simp add: iv_mem_def)
  with all have "min (snd a) (snd b) + snd c < 1" by blast
  then show "iv_lt (iv_add (iv_min a b) c) (iv_of_int 1)"
    by (simp add: iv_lt_def iv_add_def iv_min_def iv_of_int_def)
qed

text \<open>
  The source is never more generous than the specification: when it returns \<open>True\<close>,
  the specification's test holds.
\<close>

lemma jif_True_spec:
  assumes "jorgensens_inequality_fails exact_ops P Q = Inr True"
  shows "spec_jorgensen_fails P Q"
proof -
  let ?a = "ci_abs (ci_sub_int (ci_mul (cm_trace P) (cm_trace P)) 4)"
  let ?b = "ci_abs (ci_sub_int (ci_mul (cm_trace Q) (cm_trace Q)) 4)"
  let ?c = "ci_abs (ci_sub_int
      (cm_trace (cm_mul (cm_mul (cm_mul P Q) (cm_inverse P)) (cm_inverse Q))) 2)"
  let ?m = "if iv_lt ?b ?a then ?b else ?a"
  from assms have lt: "snd ?m + snd ?c < 1"
    by (simp add: jorgensens_inequality_fails_def exact_ops_def py_min_def Let_def iv_lt_def
        iv_add_def iv_of_int_def split: if_splits)
  have "min (snd ?a) (snd ?b) \<le> snd ?m" by simp
  with lt show ?thesis
    by (simp add: spec_jorgensen_fails_def spec_mu_def iv_lt_def iv_add_def iv_min_def
        iv_of_int_def)
qed

lemmas spec_eval = spec_jorgensen_fails_def spec_mu_def iv_min_def exact_ops_def

lemma spec_mu_c_a: "spec_mu mat_c mat_a = (0, 42 / 100)"
  by (simp add: spec_eval mat_c_def mat_a_def real_eval)

lemma spec_mu_c_b: "spec_mu mat_c mat_b = (0, 42 / 100)"
  by (simp add: spec_eval mat_c_def mat_b_def real_eval)

lemma code_mu_c_a: "code_mu exact_ops mat_c mat_a = (0, 126 / 100)"
  by (simp add: code_mu_def py_min_def exact_ops_def mat_c_def mat_a_def real_eval)

lemma code_mu_c_b: "code_mu exact_ops mat_c mat_b = (0, 126 / 100)"
  by (simp add: code_mu_def py_min_def exact_ops_def mat_c_def mat_b_def real_eval)

lemma spec_fails_c_a: "spec_jorgensen_fails mat_c mat_a"
  by (simp add: spec_jorgensen_fails_def spec_mu_c_a iv_lt_def iv_of_int_def)

lemma spec_fails_c_b: "spec_jorgensen_fails mat_c mat_b"
  by (simp add: spec_jorgensen_fails_def spec_mu_c_b iv_lt_def iv_of_int_def)

lemma toy_spec_c: "is_nontrivial_spec toy_solver ''c'' = Inr False"
  unfolding is_nontrivial_spec_def Let_def toy_eval_words toy_eval_anchors
  using one_c spec_fails_c_a spec_fails_c_b by simp

text \<open>
  C1. The specification's three outcomes are not what the source gives for the word
  \<open>c\<close> of the toy representation. Its matrix \<open>X\<close> contains the identity, \<open>X\<close> and the
  anchors \<open>A\<close> and \<open>B\<close> pass the assertion, and both anchors show the failure condition
  (the specification's \<open>mu\<close> is below 1 for \<open>(X, A)\<close> and for \<open>(X, B)\<close>, and the source's own
  test succeeds for \<open>(A, X)\<close> and for \<open>(B, X)\<close>), so the specification returns \<open>False\<close>,
  trivial; the source raises \<open>PrecisionInsufficient\<close>, because its calls for \<open>(X, A)\<close> and
  \<open>(X, B)\<close> return \<open>False\<close>.
\<close>

theorem is_nontrivial_raises_despite_failure:
  "contains_one exact_ops (rho_eval (rho toy_solver) ''c'')
   \<and> inverse_certified exact_ops (rho_eval (rho toy_solver) ''c'')
   \<and> inverse_certified exact_ops (fst (noncommmuting_mats toy_solver))
   \<and> inverse_certified exact_ops (snd (noncommmuting_mats toy_solver))
   \<and> spec_jorgensen_fails (rho_eval (rho toy_solver) ''c'') (fst (noncommmuting_mats toy_solver))
   \<and> spec_jorgensen_fails (rho_eval (rho toy_solver) ''c'') (snd (noncommmuting_mats toy_solver))
   \<and> jorgensens_inequality_fails exact_ops (fst (noncommmuting_mats toy_solver))
        (rho_eval (rho toy_solver) ''c'') = Inr True
   \<and> jorgensens_inequality_fails exact_ops (snd (noncommmuting_mats toy_solver))
        (rho_eval (rho toy_solver) ''c'') = Inr True
   \<and> is_nontrivial_spec toy_solver ''c'' = Inr False
   \<and> is_nontrivial exact_ops toy_solver ''c'' = Inl PrecisionInsufficient
   \<and> is_trivial exact_ops toy_solver ''c'' = Inl PrecisionInsufficient"
  using one_c certified_a certified_b certified_c spec_fails_c_a spec_fails_c_b jif_a_c jif_b_c
    toy_spec_c toy_nontrivial_c
  by (simp add: toy_eval_words toy_eval_anchors is_trivial_def)

text \<open>
  C2. For the interval matrices \<open>mat_c\<close> (an enclosure of the identity) and \<open>mat_a\<close>
  (a parabolic matrix), which pass the assertion, the specification's \<open>mu\<close> is the
  interval from 0 to 0.42 and is provably less than 1, but
  \<open>jorgensens_inequality_fails(mat_c, mat_a)\<close> returns \<open>False\<close>: the two first terms are the
  intervals from 0 to 0.84 and from 0 to 0, Python's \<open>min\<close> keeps the first because the
  second is not provably smaller, and the source's \<open>mu\<close> is the interval from 0 to 1.26.
  With the arguments exchanged the source returns \<open>True\<close>.
\<close>

theorem jorgensens_inequality_fails_min_slip:
  "inverse_certified exact_ops mat_c \<and> inverse_certified exact_ops mat_a
   \<and> spec_mu mat_c mat_a = (0, 42 / 100) \<and> spec_jorgensen_fails mat_c mat_a
   \<and> code_mu exact_ops mat_c mat_a = (0, 126 / 100)
   \<and> jorgensens_inequality_fails exact_ops mat_c mat_a = Inr False
   \<and> jorgensens_inequality_fails exact_ops mat_a mat_c = Inr True"
  using certified_c certified_a spec_mu_c_a spec_fails_c_a code_mu_c_a jif_c_a jif_a_c
  by simp

text \<open>
  C3. The source does not use the \<open>or\<close> of the test for \<open>(X, A)\<close> and for \<open>(A, X)\<close>. For
  the word \<open>c\<close> of the toy representation, whose matrix \<open>X\<close> contains the identity, the
  test returns \<open>False\<close> for \<open>(X, A)\<close> and \<open>(X, B)\<close> and \<open>True\<close> for \<open>(A, X)\<close> and \<open>(B, X)\<close>;
  with the \<open>or\<close> of both directions for each anchor the word is certified trivial, and
  the source, which calls the test for \<open>(X, A)\<close> only, raises \<open>PrecisionInsufficient\<close>.
\<close>

theorem is_nontrivial_misses_other_direction:
  "contains_one exact_ops (rho_eval (rho toy_solver) ''c'')
   \<and> jorgensens_inequality_fails exact_ops (rho_eval (rho toy_solver) ''c'')
        (fst (noncommmuting_mats toy_solver)) = Inr False
   \<and> jorgensens_inequality_fails exact_ops (fst (noncommmuting_mats toy_solver))
        (rho_eval (rho toy_solver) ''c'') = Inr True
   \<and> jorgensens_inequality_fails exact_ops (rho_eval (rho toy_solver) ''c'')
        (snd (noncommmuting_mats toy_solver)) = Inr False
   \<and> jorgensens_inequality_fails exact_ops (snd (noncommmuting_mats toy_solver))
        (rho_eval (rho toy_solver) ''c'') = Inr True
   \<and> is_nontrivial_both_directions exact_ops toy_solver ''c'' = Inr False
   \<and> is_nontrivial exact_ops toy_solver ''c'' = Inl PrecisionInsufficient"
  using one_c toy_nontrivial_c toy_both_directions_c jif_c_a jif_a_c jif_c_b jif_b_c
  by (simp add: toy_eval_words toy_eval_anchors)

subsection \<open>is\_manifold and the construction of the solver\<close>

lemma ZZ_Some_iff: "(ZZ a = Some n) = (a \<in> \<int> \<and> n = \<lfloor>a\<rfloor>)"
  by (auto simp: ZZ_def Ints_def)

lemma ZZ_None_iff: "(ZZ a = None) = (a \<notin> \<int>)"
  by (auto simp: ZZ_def Ints_def)

lemma is_manifold_iff:
  "is_manifold cusps =
     (\<forall>(a, b) \<in> set cusps. a \<in> \<int> \<and> b \<in> \<int> \<and> ((a = 0 \<and> b = 0) \<or> gcd \<lfloor>a\<rfloor> \<lfloor>b\<rfloor> = 1))"
proof (induction cusps)
  case Nil
  then show ?case by simp
next
  case (Cons c cusps)
  obtain a b where c: "c = (a, b)" by (cases c)
  show ?case
  proof (cases "a \<in> \<int> \<and> b \<in> \<int>")
    case False
    then have "ZZ a = None \<or> ZZ b = None" by (simp add: ZZ_None_iff)
    then have "is_manifold ((a, b) # cusps) = False"
      by (auto split: option.splits)
    with False c show ?thesis by auto
  next
    case True
    then have z: "ZZ a = Some \<lfloor>a\<rfloor>" "ZZ b = Some \<lfloor>b\<rfloor>" by (simp_all add: ZZ_Some_iff)
    from True have f: "(\<lfloor>a\<rfloor> = 0 \<and> \<lfloor>b\<rfloor> = 0) = (a = 0 \<and> b = 0)"
      by (auto elim!: Ints_cases)
    from z f True Cons.IH c show ?thesis by auto
  qed
qed

text \<open>
  C8. \<open>is_manifold\<close> accepts the filling coefficients exactly when every cusp is
  unfilled, \<open>(0, 0)\<close>, or has two integer coefficients of greatest common divisor 1. When
  it does not, the construction of the solver raises \<open>UnsupportedTopology\<close>, whatever
  \<open>verify_hyperbolicity\<close> would return: the holonomy is not asked for.
\<close>

theorem is_manifold_unsupported_topology:
  "is_manifold cusps =
     (\<forall>(a, b) \<in> set cusps. (a = 0 \<and> b = 0) \<or> (a \<in> \<int> \<and> b \<in> \<int> \<and> gcd \<lfloor>a\<rfloor> \<lfloor>b\<rfloor> = 1))
   \<and> (\<not> is_manifold (cusp_filling M) \<longrightarrow>
        WordProblemSolver ops (M\<lparr>verify_hyperbolicity := v\<rparr>) bits args = Inl UnsupportedTopology)"
proof -
  have "is_manifold cusps =
     (\<forall>(a, b) \<in> set cusps. (a = 0 \<and> b = 0) \<or> (a \<in> \<int> \<and> b \<in> \<int> \<and> gcd \<lfloor>a\<rfloor> \<lfloor>b\<rfloor> = 1))"
    unfolding is_manifold_iff by auto
  then show ?thesis by (simp add: WordProblemSolver_def)
qed

theorem is_manifold_unsupported_topology_witness:
  "\<not> is_manifold (cusp_filling (toy_Manifold ''toy(4,2)''))
   \<and> WordProblemSolver exact_ops (toy_Manifold ''toy(4,2)'') 100 [1, 1, 0] = Inl UnsupportedTopology
   \<and> is_manifold [(0, 0)] \<and> is_manifold [(1, 2)] \<and> \<not> is_manifold [(4, 2)]
   \<and> \<not> is_manifold [(0, 0), (13 / 10, 9 / 2)]"
proof -
  let ?M = "toy_Manifold ''toy(4,2)''"
  have c: "cusp_filling ?M = [(4, 2)]" by (simp add: toy_Manifold_def)
  have h: "\<not> is_manifold (cusp_filling ?M)"
    unfolding c is_manifold_unsupported_topology [THEN conjunct1] by simp
  have u: "?M\<lparr>verify_hyperbolicity := verify_hyperbolicity ?M\<rparr> = ?M" by simp
  from is_manifold_unsupported_topology [of "[]" ?M exact_ops "verify_hyperbolicity ?M" 100 "[1, 1, 0]"] h
  have w: "WordProblemSolver exact_ops ?M 100 [1, 1, 0] = Inl UnsupportedTopology"
    unfolding u by blast
  have e: "is_manifold [(0, 0)]" "is_manifold [(1, 2)]" "\<not> is_manifold [(4, 2)]"
    "\<not> is_manifold [(0, 0), (13 / 10, 9 / 2)]"
    unfolding is_manifold_unsupported_topology [THEN conjunct1] by simp_all
  from h w e show ?thesis by blast
qed

section \<open>Properties of the proof checker\<close>

lemma py_all_True_iff: "(py_all f xs = Inr True) = (\<forall>x \<in> set xs. f x = Inr True)"
  by (induction xs) (auto split: sum.splits bool.splits)

lemma check_claim_eq:
  "check_claim ops s (p, tw) =
     (case is_trivial ops s (concat tw) of
        Inl e \<Rightarrow> Inl e
      | Inr is_one \<Rightarrow> Inr (set tw \<subseteq> set p \<and> is_one))"
  by (simp add: check_claim_def)

lemma check_proof_stages:
  assumes "WordProblemSolver ops (Manifold (pr_name pr)) 100 (pr_group_args pr) = Inr s"
    and "generators (rho s) = split_dot (pr_gens pr)"
    and "relators (rho s) = pr_rels pr"
  shows "check_proof ops set_iter Manifold pr =
     (case tree_ok (parsed_claims pr) of
        Inl e \<Rightarrow> Inl e
      | Inr a0 \<Rightarrow>
          (case all_nontrivial_edge_labels ops set_iter s (parsed_claims pr) of
             Inl e \<Rightarrow> Inl e
           | Inr a1 \<Rightarrow>
               (case py_all (check_claim ops s) (parsed_claims pr) of
                  Inl e \<Rightarrow> Inl e
                | Inr a2 \<Rightarrow> Inr (a0 \<and> a1 \<and> a2))))"
  using assms by (simp add: check_proof_def Let_def)

lemma check_proof_InrD:
  assumes "check_proof ops set_iter Manifold pr = Inr r"
  shows "\<exists>s a0 a1 a2.
      WordProblemSolver ops (Manifold (pr_name pr)) 100 (pr_group_args pr) = Inr s
      \<and> generators (rho s) = split_dot (pr_gens pr) \<and> relators (rho s) = pr_rels pr
      \<and> tree_ok (parsed_claims pr) = Inr a0
      \<and> all_nontrivial_edge_labels ops set_iter s (parsed_claims pr) = Inr a1
      \<and> py_all (check_claim ops s) (parsed_claims pr) = Inr a2
      \<and> r = (a0 \<and> a1 \<and> a2)"
  using assms
  by (auto simp: check_proof_def Let_def split: sum.splits if_splits)

lemma all_nontrivial_True_iff:
  assumes "set_iter_ok set_iter"
  shows "(all_nontrivial_edge_labels ops set_iter s claims = Inr True)
    = (\<forall>e \<in> set (concat (paths_to_root claims)). is_nontrivial ops s e = Inr True)"
proof -
  from assms have "set (set_iter (concat (paths_to_root claims))) = set (concat (paths_to_root claims))"
    by (simp add: set_iter_ok_def)
  then show ?thesis
    by (simp add: all_nontrivial_edge_labels_def Let_def py_all_True_iff)
qed

lemma check_proof_True_iff:
  assumes "set_iter_ok set_iter"
  shows "(check_proof ops set_iter Manifold pr = Inr True) =
     (\<exists>s. WordProblemSolver ops (Manifold (pr_name pr)) 100 (pr_group_args pr) = Inr s
        \<and> generators (rho s) = split_dot (pr_gens pr) \<and> relators (rho s) = pr_rels pr
        \<and> tree_ok (parsed_claims pr) = Inr True
        \<and> (\<forall>e \<in> set (concat (paths_to_root (parsed_claims pr))). is_nontrivial ops s e = Inr True)
        \<and> (\<forall>c \<in> set (parsed_claims pr). check_claim ops s c = Inr True))"
    (is "?L = ?R")
proof
  assume ?L
  from check_proof_InrD [OF this] obtain s a0 a1 a2 where
    s: "WordProblemSolver ops (Manifold (pr_name pr)) 100 (pr_group_args pr) = Inr s"
      "generators (rho s) = split_dot (pr_gens pr)" "relators (rho s) = pr_rels pr"
    and st: "tree_ok (parsed_claims pr) = Inr a0"
      "all_nontrivial_edge_labels ops set_iter s (parsed_claims pr) = Inr a1"
      "py_all (check_claim ops s) (parsed_claims pr) = Inr a2"
    and r: "True = (a0 \<and> a1 \<and> a2)" by blast
  from r have "a0" "a1" "a2" by simp_all
  with st all_nontrivial_True_iff [OF assms, of ops s "parsed_claims pr"]
    py_all_True_iff [of "check_claim ops s" "parsed_claims pr"] s
  show ?R by auto
next
  assume ?R
  then obtain s where
    s: "WordProblemSolver ops (Manifold (pr_name pr)) 100 (pr_group_args pr) = Inr s"
      "generators (rho s) = split_dot (pr_gens pr)" "relators (rho s) = pr_rels pr"
    and t: "tree_ok (parsed_claims pr) = Inr True"
    and e: "\<forall>e \<in> set (concat (paths_to_root (parsed_claims pr))). is_nontrivial ops s e = Inr True"
    and c: "\<forall>c \<in> set (parsed_claims pr). check_claim ops s c = Inr True" by blast
  from e have e': "all_nontrivial_edge_labels ops set_iter s (parsed_claims pr) = Inr True"
    by (simp add: all_nontrivial_True_iff [OF assms])
  from c have c': "py_all (check_claim ops s) (parsed_claims pr) = Inr True"
    by (simp add: py_all_True_iff)
  show ?L
    unfolding check_proof_stages [where Manifold = Manifold and pr = pr and s = s, OF s]
    by (simp add: t e' c')
qed

subsection \<open>The toy proofs\<close>

lemma set_iter_ok_remdups: "set_iter_ok remdups"
  by (simp add: set_iter_ok_def)

lemma toy_solver_of_proof:
  "WordProblemSolver exact_ops (toy_Manifold (pr_name (toy_proof cl))) 100
     (pr_group_args (toy_proof cl)) = Inr toy_solver"
  "generators (rho toy_solver) = split_dot (pr_gens (toy_proof cl))"
  "relators (rho toy_solver) = pr_rels (toy_proof cl)"
  by (simp_all add: toy_proof_def toy_Manifold_def toy_solver_built toy_solver_def toy_rho_def)

lemma toy_trivial_d: "is_trivial exact_ops toy_solver ''d'' = Inr True"
  by (simp add: is_trivial_def toy_nontrivial_d)

lemma toy_trivial_c: "is_trivial exact_ops toy_solver ''c'' = Inl PrecisionInsufficient"
  by (simp add: is_trivial_def toy_nontrivial_c)

lemma toy_trivial_eeee: "is_trivial exact_ops toy_solver ''eeee'' = Inr True"
  by (simp add: is_trivial_def toy_nontrivial_eeee)

lemma parsed_good: "parsed_claims (toy_proof [(''e'', ''e.e.e.e'')]) = [([''e''], [''e'', ''e'', ''e'', ''e''])]"
  by (simp add: parsed_claims_def toy_proof_def)

lemma parsed_dup: "parsed_claims (toy_proof [(''c'', ''d''), (''c'', ''d'')]) = [([''c''], [''d'']), ([''c''], [''d''])]"
  by (simp add: parsed_claims_def toy_proof_def)

lemma tree_good: "tree_ok [([''e''], w)] = Inr True"
  by (simp add: tree_eval)

lemma tree_dup: "tree_ok [([''c''], w), ([''c''], w')] = Inr False"
  by (simp add: tree_eval)


lemma parsed_dup_e:
  "parsed_claims (toy_proof [(''e'', ''c''), (''e'', ''c'')]) = [([''e''], [''c'']), ([''e''], [''c''])]"
  by (simp add: parsed_claims_def toy_proof_def)

lemma tree_dup_e: "tree_ok [([''e''], w), ([''e''], w')] = Inr False"
  by (simp add: tree_eval)

lemma toy_good_tree: "tree_ok (parsed_claims (toy_proof [(''e'', ''e.e.e.e'')])) = Inr True"
  by (simp add: parsed_good tree_good)

lemma toy_good_labels:
  "all_nontrivial_edge_labels exact_ops remdups toy_solver
     (parsed_claims (toy_proof [(''e'', ''e.e.e.e'')])) = Inr True"
  by (simp add: all_nontrivial_edge_labels_def parsed_good paths_to_root_def toy_nontrivial_e)

lemma toy_good_claims:
  "py_all (check_claim exact_ops toy_solver)
     (parsed_claims (toy_proof [(''e'', ''e.e.e.e'')])) = Inr True"
  by (simp add: parsed_good check_claim_eq toy_trivial_eeee)

lemma toy_dup_labels:
  "all_nontrivial_edge_labels exact_ops remdups toy_solver
     (parsed_claims (toy_proof [(''c'', ''d''), (''c'', ''d'')])) = Inl PrecisionInsufficient"
  by (simp add: all_nontrivial_edge_labels_def parsed_dup paths_to_root_def toy_nontrivial_c)

lemma toy_dup_e_labels:
  "all_nontrivial_edge_labels exact_ops remdups toy_solver
     (parsed_claims (toy_proof [(''e'', ''c''), (''e'', ''c'')])) = Inr True"
  by (simp add: all_nontrivial_edge_labels_def parsed_dup_e paths_to_root_def toy_nontrivial_e)

lemma toy_dup_e_claims:
  "py_all (check_claim exact_ops toy_solver)
     (parsed_claims (toy_proof [(''e'', ''c''), (''e'', ''c'')])) = Inl PrecisionInsufficient"
  by (simp add: parsed_dup_e check_claim_eq toy_trivial_c)

text \<open>
  C6. \<open>check_claim\<close> returns \<open>True\<close> exactly when every token of the asserted word is one
  of the labels of the claim's own path and the solver shows the concatenation of the
  tokens trivial; with a token that is not on the path it returns \<open>False\<close> also when the
  concatenation is certified trivial. After the solver is built and the generators and
  relators are compared, \<open>check_proof\<close> returns the conjunction of \<open>tree_ok\<close>, of
  \<open>all_nontrivial_edge_labels\<close> and of the claims' checks; it returns \<open>True\<close> exactly when
  the tree is accepted, every edge label is shown nontrivial and every claim passes.
\<close>

theorem check_claim_and_check_proof:
  "(check_claim ops s (p, tw) = Inr True)
      = (set tw \<subseteq> set p \<and> is_trivial ops s (concat tw) = Inr True)
   \<and> (is_trivial ops s (concat tw) = Inr True \<and> \<not> set tw \<subseteq> set p
        \<longrightarrow> check_claim ops s (p, tw) = Inr False)
   \<and> (WordProblemSolver ops (Manifold (pr_name pr)) 100 (pr_group_args pr) = Inr s'
        \<and> generators (rho s') = split_dot (pr_gens pr) \<and> relators (rho s') = pr_rels pr
        \<and> tree_ok (parsed_claims pr) = Inr r_tree
        \<and> all_nontrivial_edge_labels ops set_iter s' (parsed_claims pr) = Inr r_labels
        \<and> py_all (check_claim ops s') (parsed_claims pr) = Inr r_claims
        \<longrightarrow> check_proof ops set_iter Manifold pr = Inr (r_tree \<and> r_labels \<and> r_claims))
   \<and> (set_iter_ok set_iter \<longrightarrow>
        (check_proof ops set_iter Manifold pr = Inr True) =
          (\<exists>s. WordProblemSolver ops (Manifold (pr_name pr)) 100 (pr_group_args pr) = Inr s
             \<and> generators (rho s) = split_dot (pr_gens pr) \<and> relators (rho s) = pr_rels pr
             \<and> tree_ok (parsed_claims pr) = Inr True
             \<and> (\<forall>e \<in> set (concat (paths_to_root (parsed_claims pr))).
                   is_nontrivial ops s e = Inr True)
             \<and> (\<forall>c \<in> set (parsed_claims pr). check_claim ops s c = Inr True)))"
proof -
  have 1: "(check_claim ops s (p, tw) = Inr True)
      = (set tw \<subseteq> set p \<and> is_trivial ops s (concat tw) = Inr True)"
    by (auto simp: check_claim_eq split: sum.splits)
  have 2: "is_trivial ops s (concat tw) = Inr True \<and> \<not> set tw \<subseteq> set p
        \<longrightarrow> check_claim ops s (p, tw) = Inr False"
    by (simp add: check_claim_eq)
  have 3: "WordProblemSolver ops (Manifold (pr_name pr)) 100 (pr_group_args pr) = Inr s'
        \<and> generators (rho s') = split_dot (pr_gens pr) \<and> relators (rho s') = pr_rels pr
        \<and> tree_ok (parsed_claims pr) = Inr r_tree
        \<and> all_nontrivial_edge_labels ops set_iter s' (parsed_claims pr) = Inr r_labels
        \<and> py_all (check_claim ops s') (parsed_claims pr) = Inr r_claims
        \<longrightarrow> check_proof ops set_iter Manifold pr = Inr (r_tree \<and> r_labels \<and> r_claims)"
    using check_proof_stages [where Manifold = Manifold and pr = pr and s = s' and ops = ops
        and set_iter = set_iter]
    by simp
  from 1 2 3 check_proof_True_iff [of set_iter ops Manifold pr] show ?thesis by blast
qed

theorem check_claim_and_check_proof_witness:
  "is_trivial exact_ops toy_solver (concat [''d'']) = Inr True
   \<and> \<not> set [''d''] \<subseteq> set [''a'']
   \<and> check_claim exact_ops toy_solver ([''a''], [''d'']) = Inr False
   \<and> WordProblemSolver exact_ops (toy_Manifold (pr_name (toy_proof [(''e'', ''e.e.e.e'')]))) 100
        (pr_group_args (toy_proof [(''e'', ''e.e.e.e'')])) = Inr toy_solver
   \<and> generators (rho toy_solver) = split_dot (pr_gens (toy_proof [(''e'', ''e.e.e.e'')]))
   \<and> relators (rho toy_solver) = pr_rels (toy_proof [(''e'', ''e.e.e.e'')])
   \<and> tree_ok (parsed_claims (toy_proof [(''e'', ''e.e.e.e'')])) = Inr True
   \<and> all_nontrivial_edge_labels exact_ops remdups toy_solver
        (parsed_claims (toy_proof [(''e'', ''e.e.e.e'')])) = Inr True
   \<and> py_all (check_claim exact_ops toy_solver)
        (parsed_claims (toy_proof [(''e'', ''e.e.e.e'')])) = Inr True
   \<and> check_proof exact_ops remdups toy_Manifold (toy_proof [(''e'', ''e.e.e.e'')]) = Inr True
   \<and> set_iter_ok remdups
   \<and> check_claim exact_ops toy_solver ([''e''], [''e'', ''e'', ''e'', ''e'']) = Inr True"
proof -
  let ?pr = "toy_proof [(''e'', ''e.e.e.e'')]"
  note t = check_claim_and_check_proof [where ops = exact_ops and set_iter = remdups
      and Manifold = toy_Manifold and pr = ?pr and s' = toy_solver and s = toy_solver
      and r_tree = True and r_labels = True and r_claims = True]
  have d: "is_trivial exact_ops toy_solver (concat [''d'']) = Inr True" "\<not> set [''d''] \<subseteq> set [''a'']"
    by (simp_all add: toy_trivial_d)
  with t [where p = "[''a'']" and tw = "[''d'']"]
  have f: "check_claim exact_ops toy_solver ([''a''], [''d'']) = Inr False" by blast
  note h = toy_solver_of_proof [of "[(''e'', ''e.e.e.e'')]"] toy_good_tree toy_good_labels
    toy_good_claims
  from t [where p = "[''a'']" and tw = "[''d'']"] h
  have g: "check_proof exact_ops remdups toy_Manifold ?pr = Inr True" by simp
  from t [where p = "[''a'']" and tw = "[''d'']"] g set_iter_ok_remdups
  obtain s where c: "\<forall>c \<in> set (parsed_claims ?pr). check_claim exact_ops s c = Inr True"
    and s: "WordProblemSolver exact_ops (toy_Manifold (pr_name ?pr)) 100 (pr_group_args ?pr) = Inr s"
    by blast
  from s h(1) have "s = toy_solver" by simp
  with c have e: "check_claim exact_ops toy_solver ([''e''], [''e'', ''e'', ''e'', ''e'']) = Inr True"
    by (simp add: parsed_good)
  from d f h g set_iter_ok_remdups e show ?thesis by blast
qed

text \<open>
  C10. The three stages of \<open>check_proof\<close> are evaluated one after the other before
  their results are joined: an exception of the edge-label stage ends the check
  whatever \<open>tree_ok\<close> returned, and an exception of the claim stage ends it whatever the
  first two stages returned. In \<open>check_claim\<close> the solver is called before the tokens are
  compared with the path, so its exception ends the check of a claim whose tokens are
  not on the path.
\<close>

theorem check_proof_eager:
  "(WordProblemSolver ops (Manifold (pr_name pr)) 100 (pr_group_args pr) = Inr s'
      \<and> generators (rho s') = split_dot (pr_gens pr) \<and> relators (rho s') = pr_rels pr
      \<and> tree_ok (parsed_claims pr) = Inr r_tree
      \<and> all_nontrivial_edge_labels ops set_iter s' (parsed_claims pr) = Inl e
      \<longrightarrow> check_proof ops set_iter Manifold pr = Inl e)
   \<and> (WordProblemSolver ops (Manifold (pr_name pr)) 100 (pr_group_args pr) = Inr s'
        \<and> generators (rho s') = split_dot (pr_gens pr) \<and> relators (rho s') = pr_rels pr
        \<and> tree_ok (parsed_claims pr) = Inr r_tree
        \<and> all_nontrivial_edge_labels ops set_iter s' (parsed_claims pr) = Inr r_labels
        \<and> py_all (check_claim ops s') (parsed_claims pr) = Inl e
        \<longrightarrow> check_proof ops set_iter Manifold pr = Inl e)
   \<and> (is_trivial ops s (concat tw) = Inl e \<longrightarrow> check_claim ops s (p, tw) = Inl e)"
  using check_proof_stages [where Manifold = Manifold and pr = pr and s = s' and ops = ops
      and set_iter = set_iter]
  by (simp add: check_claim_eq)

theorem check_proof_eager_witness:
  "tree_ok (parsed_claims (toy_proof [(''c'', ''d''), (''c'', ''d'')])) = Inr False
   \<and> all_nontrivial_edge_labels exact_ops remdups toy_solver
        (parsed_claims (toy_proof [(''c'', ''d''), (''c'', ''d'')])) = Inl PrecisionInsufficient
   \<and> check_proof exact_ops remdups toy_Manifold (toy_proof [(''c'', ''d''), (''c'', ''d'')])
        = Inl PrecisionInsufficient
   \<and> tree_ok (parsed_claims (toy_proof [(''e'', ''c''), (''e'', ''c'')])) = Inr False
   \<and> all_nontrivial_edge_labels exact_ops remdups toy_solver
        (parsed_claims (toy_proof [(''e'', ''c''), (''e'', ''c'')])) = Inr True
   \<and> py_all (check_claim exact_ops toy_solver)
        (parsed_claims (toy_proof [(''e'', ''c''), (''e'', ''c'')])) = Inl PrecisionInsufficient
   \<and> check_proof exact_ops remdups toy_Manifold (toy_proof [(''e'', ''c''), (''e'', ''c'')])
        = Inl PrecisionInsufficient
   \<and> \<not> set [''c''] \<subseteq> set [''a'']
   \<and> is_trivial exact_ops toy_solver (concat [''c'']) = Inl PrecisionInsufficient
   \<and> check_claim exact_ops toy_solver ([''a''], [''c'']) = Inl PrecisionInsufficient"
proof -
  let ?p1 = "toy_proof [(''c'', ''d''), (''c'', ''d'')]"
  let ?p2 = "toy_proof [(''e'', ''c''), (''e'', ''c'')]"
  note t1 = check_proof_eager [where ops = exact_ops and set_iter = remdups
      and Manifold = toy_Manifold and pr = ?p1 and s' = toy_solver and s = toy_solver
      and e = PrecisionInsufficient and r_tree = False and p = "[''a'']" and tw = "[''c'']"]
  note t2 = check_proof_eager [where ops = exact_ops and set_iter = remdups
      and Manifold = toy_Manifold and pr = ?p2 and s' = toy_solver and s = toy_solver
      and e = PrecisionInsufficient and r_tree = False and r_labels = True
      and p = "[''a'']" and tw = "[''c'']"]
  have a1: "tree_ok (parsed_claims ?p1) = Inr False" by (simp add: parsed_dup tree_dup)
  have a2: "tree_ok (parsed_claims ?p2) = Inr False" by (simp add: parsed_dup_e tree_dup_e)
  have c: "is_trivial exact_ops toy_solver (concat [''c'']) = Inl PrecisionInsufficient"
    "\<not> set [''c''] \<subseteq> set [''a'']"
    by (simp_all add: toy_trivial_c)
  from t1 a1 toy_dup_labels toy_solver_of_proof [of "[(''c'', ''d''), (''c'', ''d'')]"]
  have r1: "check_proof exact_ops remdups toy_Manifold ?p1 = Inl PrecisionInsufficient" by simp
  from t2 a2 toy_dup_e_labels toy_dup_e_claims
    toy_solver_of_proof [of "[(''e'', ''c''), (''e'', ''c'')]"]
  have r2: "check_proof exact_ops remdups toy_Manifold ?p2 = Inl PrecisionInsufficient" by simp
  from t1 c have r3: "check_claim exact_ops toy_solver ([''a''], [''c'']) = Inl PrecisionInsufficient"
    by blast
  from a1 a2 toy_dup_labels toy_dup_e_labels toy_dup_e_claims r1 r2 r3 c show ?thesis by blast
qed

end
